theory Spec2Isabelle
  imports Main "HOL-Library.Sublist"
begin

section \<open>Rate limiter (server.js, checkRateLimit)\<close>

text \<open>
  The table \<open>rateLimitMap\<close> is a JavaScript \<open>Map\<close> from the client address to an object
  \<open>{ count, resetTime }\<close>. \<open>Date.now()\<close> is an integral number of milliseconds; it is an
  argument of the model. The function returns its boolean together with the table it
  leaves behind.
\<close>

definition RATE_LIMIT_WINDOW :: int where
  "RATE_LIMIT_WINDOW = 60000"

definition RATE_LIMIT_MAX_REQUESTS :: int where
  "RATE_LIMIT_MAX_REQUESTS = 100"

record RateLimitEntry =
  count :: int
  resetTime :: int

type_synonym rateLimitMap = "string \<rightharpoonup> RateLimitEntry"

definition checkRateLimit :: "string \<Rightarrow> int \<Rightarrow> rateLimitMap \<Rightarrow> bool \<times> rateLimitMap" where
  "checkRateLimit ip now m =
     (case m ip of
        None \<Rightarrow> (True, m(ip \<mapsto> \<lparr>count = 1, resetTime = now + RATE_LIMIT_WINDOW\<rparr>))
      | Some clientData \<Rightarrow>
          if now > resetTime clientData
          then (True, m(ip \<mapsto> \<lparr>count = 1, resetTime = now + RATE_LIMIT_WINDOW\<rparr>))
          else if count clientData \<ge> RATE_LIMIT_MAX_REQUESTS
          then (False, m)
          else (True, m(ip \<mapsto> clientData\<lparr>count := count clientData + 1\<rparr>)))"

text \<open>The periodic sweep installed with \<open>setInterval\<close>.\<close>

definition sweepRateLimit :: "int \<Rightarrow> rateLimitMap \<Rightarrow> rateLimitMap" where
  "sweepRateLimit now m =
     (\<lambda>ip. case m ip of
              None \<Rightarrow> None
            | Some d \<Rightarrow> if now > resetTime d + RATE_LIMIT_WINDOW then None else Some d)"

text \<open>
  What happens to the table over time: requests of any client and runs of the sweep, in
  the order in which the event loop executes them. \<open>run_events\<close> collects, for each
  request, the client and the answer it got.
\<close>

datatype event = Request string int | Sweep int

fun event_time :: "event \<Rightarrow> int" where
  "event_time (Request ip t) = t"
| "event_time (Sweep t) = t"

fun run_events :: "event list \<Rightarrow> rateLimitMap \<Rightarrow> (string \<times> bool) list \<times> rateLimitMap" where
  "run_events [] m = ([], m)"
| "run_events (Request ip t # es) m =
     (let (ok, m') = checkRateLimit ip t m;
          (rs, m'') = run_events es m'
      in ((ip, ok) # rs, m''))"
| "run_events (Sweep t # es) m = run_events es (sweepRateLimit t m)"

definition answers_for :: "string \<Rightarrow> (string \<times> bool) list \<Rightarrow> bool list" where
  "answers_for ip rs = map snd (filter (\<lambda>r. fst r = ip) rs)"

definition requests_of :: "string \<Rightarrow> event list \<Rightarrow> nat" where
  "requests_of ip es = length (filter (\<lambda>e. case e of Request i t \<Rightarrow> i = ip | Sweep t \<Rightarrow> False) es)"

text \<open>A table and a run of events used to exercise the theorems below.\<close>

definition ex_ip :: string where
  "ex_ip = ''10.0.0.1''"

definition ex_table :: rateLimitMap where
  "ex_table = [ex_ip \<mapsto> \<lparr>count = 100, resetTime = 500\<rparr>]"

definition ex_events :: "event list" where
  "ex_events = Sweep 1500 # Request ''10.0.0.2'' 1600 # replicate 100 (Request ex_ip 2000)"

section \<open>JavaScript values used by the gateway\<close>

text \<open>
  Strings are sequences of characters with codes 0 to 255 (the code units U+0000 to
  U+00FF of a JavaScript string). \<open>toLowerCase\<close> maps this alphabet to itself, and the
  model has it in full; \<open>toUpperCase\<close> is exact except on the three characters (0xB5,
  0xDF, 0xFF) whose upper case lies outside the alphabet, which the model leaves
  unchanged. A thrown \<open>Error\<close> object is a value carrying its \<open>name\<close> and its
  \<open>message\<close>; a function that can throw returns \<open>js_error + 'a\<close>.
\<close>

datatype js_error = JsError (err_name: string) (err_message: string)

definition CRLF :: string where
  "CRLF = [CHR 0x0D, CHR 0x0A]"

text \<open>\<open>s.split(sep)\<close> for a non-empty separator: it always yields at least one piece.\<close>

fun split_js :: "string \<Rightarrow> string \<Rightarrow> string list" where
  "split_js sep [] = [[]]"
| "split_js sep (x # xs) =
     (if sep \<noteq> [] \<and> take (length sep) (x # xs) = sep
      then [] # split_js sep (drop (length sep - 1) xs)
      else (case split_js sep xs of
              [] \<Rightarrow> [[x]]
            | p # ps \<Rightarrow> (x # p) # ps))"

text \<open>\<open>xs.join(sep)\<close> on an array of strings.\<close>

fun join_js :: "string \<Rightarrow> string list \<Rightarrow> string" where
  "join_js sep [] = []"
| "join_js sep [x] = x"
| "join_js sep (x # y # ys) = x @ sep @ join_js sep (y # ys)"

text \<open>\<open>s.indexOf(c)\<close> for a one-character needle: \<open>-1\<close> when it does not occur.\<close>

definition indexOf :: "char \<Rightarrow> string \<Rightarrow> int" where
  "indexOf c s = (if c \<in> set s then int (length (takeWhile (\<lambda>x. x \<noteq> c) s)) else -1)"

text \<open>\<open>s.includes(pat)\<close> and \<open>s.startsWith(pat)\<close>.\<close>

definition startsWith :: "string \<Rightarrow> string \<Rightarrow> bool" where
  "startsWith s pat = (take (length pat) s = pat)"

fun includes_js :: "string \<Rightarrow> string \<Rightarrow> bool" where
  "includes_js [] pat = (pat = [])"
| "includes_js (x # xs) pat = (startsWith (x # xs) pat \<or> includes_js xs pat)"

definition endsWith :: "string \<Rightarrow> string \<Rightarrow> bool" where
  "endsWith s pat = (length pat \<le> length s \<and> drop (length s - length pat) s = pat)"

text \<open>The white space that \<open>trim\<close> and the regular expression class \<open>\s\<close> remove,
  among the characters of the model.\<close>

definition is_js_space :: "char \<Rightarrow> bool" where
  "is_js_space c = (c \<in> set [CHR 0x09, CHR 0x0A, CHR 0x0B, CHR 0x0C, CHR 0x0D, CHR 0x20, CHR 0xA0])"

definition trim :: "string \<Rightarrow> string" where
  "trim s = rev (dropWhile is_js_space (rev (dropWhile is_js_space s)))"

definition upper_letters :: string where
  "upper_letters = ''ABCDEFGHIJKLMNOPQRSTUVWXYZ'' @
     [
      CHR 0xC0, CHR 0xC1, CHR 0xC2, CHR 0xC3, CHR 0xC4, CHR 0xC5, CHR 0xC6, CHR 0xC7,
      CHR 0xC8, CHR 0xC9, CHR 0xCA, CHR 0xCB, CHR 0xCC, CHR 0xCD, CHR 0xCE, CHR 0xCF,
      CHR 0xD0, CHR 0xD1, CHR 0xD2, CHR 0xD3, CHR 0xD4, CHR 0xD5, CHR 0xD6, CHR 0xD8,
      CHR 0xD9, CHR 0xDA, CHR 0xDB, CHR 0xDC, CHR 0xDD, CHR 0xDE]"

definition lower_letters :: string where
  "lower_letters = ''abcdefghijklmnopqrstuvwxyz'' @
     [
      CHR 0xE0, CHR 0xE1, CHR 0xE2, CHR 0xE3, CHR 0xE4, CHR 0xE5, CHR 0xE6, CHR 0xE7,
      CHR 0xE8, CHR 0xE9, CHR 0xEA, CHR 0xEB, CHR 0xEC, CHR 0xED, CHR 0xEE, CHR 0xEF,
      CHR 0xF0, CHR 0xF1, CHR 0xF2, CHR 0xF3, CHR 0xF4, CHR 0xF5, CHR 0xF6, CHR 0xF8,
      CHR 0xF9, CHR 0xFA, CHR 0xFB, CHR 0xFC, CHR 0xFD, CHR 0xFE]"

definition lower_char :: "char \<Rightarrow> char" where
  "lower_char c = (case map_of (zip upper_letters lower_letters) c of None \<Rightarrow> c | Some l \<Rightarrow> l)"

definition upper_char :: "char \<Rightarrow> char" where
  "upper_char c = (case map_of (zip lower_letters upper_letters) c of None \<Rightarrow> c | Some u \<Rightarrow> u)"

definition toLowerCase :: "string \<Rightarrow> string" where
  "toLowerCase s = map lower_char s"

text \<open>Decimal notation of a natural number and of an integer, as string interpolation
  and \<open>JSON.stringify\<close> print them.\<close>

fun show_nat :: "nat \<Rightarrow> string" where
  "show_nat n = (if n < 10 then [''0123456789'' ! n] else show_nat (n div 10) @ [''0123456789'' ! (n mod 10)])"

definition show_int :: "int \<Rightarrow> string" where
  "show_int i = (if i < 0 then CHR ''-'' # show_nat (nat (- i)) else show_nat (nat i))"

subsection \<open>Plain objects used as dictionaries\<close>

text \<open>
  An object literal \<open>{}\<close> that the code fills by assignment is modelled by the list of
  its own properties in the order in which \<open>Object.entries\<close> enumerates them: keys that
  are array indices first, in ascending numeric order, then the other keys in the order
  of their creation.
\<close>

type_synonym 'v jsobj = "(string \<times> 'v) list"

fun digits_value :: "string \<Rightarrow> nat" where
  "digits_value s = foldl (\<lambda>n c. 10 * n + (of_char c - 48)) 0 s"

definition is_array_index :: "string \<Rightarrow> bool" where
  "is_array_index k =
     (k \<noteq> [] \<and> (\<forall>c\<in>set k. 48 \<le> (of_char c :: nat) \<and> (of_char c :: nat) \<le> 57) \<and>
      (hd k = CHR ''0'' \<longrightarrow> length k = 1) \<and> length k \<le> 10 \<and> digits_value k < 4294967295)"

definition jsobj_set :: "string \<Rightarrow> 'v \<Rightarrow> 'v jsobj \<Rightarrow> 'v jsobj" where
  "jsobj_set k v kvs =
     (if k \<in> fst ` set kvs then map (\<lambda>e. if fst e = k then (k, v) else e) kvs
      else if is_array_index k
      then (let earlier = (\<lambda>e. is_array_index (fst e) \<and> digits_value (fst e) < digits_value k)
            in takeWhile earlier kvs @ (k, v) # dropWhile earlier kvs)
      else kvs @ [(k, v)])"

section \<open>Wire codec: parsing (server.js, parseHttpRequest)\<close>

text \<open>
  \<open>decodeURIComponent\<close> is a built-in of the language; it throws \<open>URIError\<close> on a
  malformed escape sequence. The parser takes it as its first argument, so that what is
  proved holds for the built-in whatever it decodes.
\<close>

type_synonym decoder = "string \<Rightarrow> js_error + string"

record ParsedRequest =
  "method" :: string
  path :: string
  fullPath :: string
  query :: "string jsobj"
  version :: string
  headers :: "string list jsobj"
  body :: string

text \<open>
  \<open>query[k] = v\<close> on the object literal \<open>query = {}\<close>. The key \<open>__proto__\<close> names the
  accessor inherited from \<open>Object.prototype\<close>; its setter ignores a value that is not an
  object, so assigning a string through it creates no property.
\<close>

definition query_assign :: "string \<Rightarrow> string \<Rightarrow> string jsobj \<Rightarrow> string jsobj" where
  "query_assign k v q = (if k = ''__proto__'' then q else jsobj_set k v q)"

text \<open>The body of the \<open>forEach\<close> over \<open>queryString.split('&')\<close>.\<close>

fun parse_query_params :: "decoder \<Rightarrow> string list \<Rightarrow> string jsobj \<Rightarrow> js_error + string jsobj" where
  "parse_query_params dec [] q = Inr q"
| "parse_query_params dec (param # ps) q =
     (case split_js ''='' param of
        [] \<Rightarrow> parse_query_params dec ps q
      | key # vs \<Rightarrow>
          if key = [] then parse_query_params dec ps q
          else (case dec key of
                  Inl e \<Rightarrow> Inl e
                | Inr k \<Rightarrow>
                    (case (case vs of
                             [] \<Rightarrow> Inr []
                           | v # _ \<Rightarrow> if v \<noteq> [] then dec v else Inr []) of
                       Inl e \<Rightarrow> Inl e
                     | Inr v' \<Rightarrow> parse_query_params dec ps (query_assign k v' q))))"

text \<open>
  \<open>if (!headers[name]) headers[name] = []; headers[name].push(value)\<close> on the object
  literal \<open>headers = {}\<close>. For the names \<open>constructor\<close> and \<open>__proto__\<close> the lookup
  finds the inherited member of \<open>Object.prototype\<close>, which is truthy and has no
  \<open>push\<close>: the call throws a \<open>TypeError\<close>. (The name is lower case here, and these are
  the only lower-case members of \<open>Object.prototype\<close>.)
\<close>

definition header_push :: "string \<Rightarrow> string \<Rightarrow> string list jsobj \<Rightarrow> js_error + string list jsobj" where
  "header_push name v h =
     (if name = ''constructor'' \<or> name = ''__proto__''
      then Inl (JsError ''TypeError'' ''headers[headerName].push is not a function'')
      else (case map_of h name of
              None \<Rightarrow> Inr (jsobj_set name [v] h)
            | Some vs \<Rightarrow> Inr (jsobj_set name (vs @ [v]) h)))"

text \<open>The header loop: it returns the headers and the index \<open>i\<close> at which it stopped.\<close>

fun headers_loop :: "string list \<Rightarrow> nat \<Rightarrow> string list jsobj \<Rightarrow> js_error + (string list jsobj \<times> nat)" where
  "headers_loop [] i h = Inr (h, i)"
| "headers_loop (l # ls) i h =
     (if l = [] then Inr (h, i)
      else (let colonIndex = indexOf CHR '':'' l in
            if colonIndex > 0
            then (let headerName = toLowerCase (trim (take (nat colonIndex) l));
                      headerValue = trim (drop (nat (colonIndex + 1)) l)
                  in case header_push headerName headerValue h of
                       Inl e \<Rightarrow> Inl e
                     | Inr h' \<Rightarrow> headers_loop ls (Suc i) h')
            else headers_loop ls (Suc i) h))"

definition parseHttpRequest :: "decoder \<Rightarrow> string \<Rightarrow> js_error + ParsedRequest" where
  "parseHttpRequest dec rawRequest =
     (if rawRequest = [] then Inl (JsError ''Error'' ''Invalid request: empty or non-string input'')
      else (case split_js CRLF rawRequest of
              [] \<Rightarrow> Inl (JsError ''Error'' ''Invalid request: no lines found'')
            | requestLine # rest \<Rightarrow>
                if requestLine = [] then Inl (JsError ''Error'' ''Invalid request: missing request line'')
                else (case split_js '' '' requestLine of
                        [m, fp, ver] \<Rightarrow>
                          (let queryIndex = indexOf CHR ''?'' fp;
                               p = (if queryIndex > -1 then take (nat queryIndex) fp else fp);
                               queryString = (if queryIndex > -1 then drop (nat (queryIndex + 1)) fp else [])
                           in case (if queryString \<noteq> []
                                    then parse_query_params dec (split_js ''&'' queryString) []
                                    else Inr []) of
                                Inl e \<Rightarrow> Inl e
                              | Inr q \<Rightarrow>
                                  (case headers_loop rest 0 [] of
                                     Inl e \<Rightarrow> Inl e
                                   | Inr (h, i) \<Rightarrow>
                                       Inr \<lparr>method = m, path = p, fullPath = fp, query = q,
                                            version = ver, headers = h,
                                            body = join_js CRLF (drop (i + 1) rest)\<rparr>))
                      | requestParts \<Rightarrow>
                          Inl (JsError ''Error''
                                 (''Invalid request line: expected 3 parts, got '' @
                                  show_nat (length requestParts))))))"

text \<open>
  The query string in the words of the specification: the \<open>&\<close>-separated pairs of the
  text after the first \<open>?\<close>, each with its key (the text before the first \<open>=\<close>) and
  its decoded value (the text between the first and the second \<open>=\<close>, empty when there
  is no \<open>=\<close>).
\<close>

definition query_pairs :: "string \<Rightarrow> string list" where
  "query_pairs fp =
     (let queryIndex = indexOf CHR ''?'' fp;
          queryString = (if queryIndex > -1 then drop (nat (queryIndex + 1)) fp else [])
      in if queryString \<noteq> [] then split_js ''&'' queryString else [])"

definition pair_key :: "string \<Rightarrow> string" where
  "pair_key p = (case split_js ''='' p of [] \<Rightarrow> [] | k # _ \<Rightarrow> k)"

definition pair_value :: "decoder \<Rightarrow> string \<Rightarrow> string" where
  "pair_value dec p =
     (case split_js ''='' p of
        _ # v # _ \<Rightarrow> if v \<noteq> [] then (case dec v of Inl _ \<Rightarrow> [] | Inr x \<Rightarrow> x) else []
      | _ \<Rightarrow> [])"

definition pairs_for :: "decoder \<Rightarrow> string \<Rightarrow> string list \<Rightarrow> string list" where
  "pairs_for dec K ps = filter (\<lambda>p. pair_key p \<noteq> [] \<and> dec (pair_key p) = Inr K) ps"

text \<open>A decoder for the examples: on text without a percent sign
  \<open>decodeURIComponent\<close> returns its argument, and the examples contain no other
  text; this decoder rejects the rest.\<close>

definition ex_decode :: decoder where
  "ex_decode s = (if CHR ''%'' \<in> set s then Inl (JsError ''URIError'' ''URI malformed'') else Inr s)"

section \<open>Wire codec: serialising (server.js, formatHttpResponse)\<close>

text \<open>
  The values that \<open>JSON.parse\<close> and the object literals of the source produce. Numbers
  are the integers (a status code, a count), of a size that JavaScript prints in plain
  decimal notation; an object is the list of its own properties in enumeration order,
  with distinct keys.
\<close>

datatype json =
    JUndefined
  | JNull
  | JBool bool
  | JNum int
  | JStr string
  | JArr "json list"
  | JObj "(string \<times> json) list"

text \<open>Truthiness (\<open>!x\<close> is its negation), \<open>typeof x === 'object'\<close>, and the property
  read \<open>x.k\<close> for the property names the gateway reads (none of them is inherited from
  a prototype).\<close>

fun truthy :: "json \<Rightarrow> bool" where
  "truthy JUndefined = False"
| "truthy JNull = False"
| "truthy (JBool b) = b"
| "truthy (JNum n) = (n \<noteq> 0)"
| "truthy (JStr s) = (s \<noteq> [])"
| "truthy (JArr xs) = True"
| "truthy (JObj kvs) = True"

fun typeof_object :: "json \<Rightarrow> bool" where
  "typeof_object JNull = True"
| "typeof_object (JArr xs) = True"
| "typeof_object (JObj kvs) = True"
| "typeof_object _ = False"

fun get_prop :: "json \<Rightarrow> string \<Rightarrow> json" where
  "get_prop (JObj kvs) k = (case map_of kvs k of None \<Rightarrow> JUndefined | Some v \<Rightarrow> v)"
| "get_prop _ k = JUndefined"

text \<open>String conversion, as a template literal applies it.\<close>

fun js_toString :: "json \<Rightarrow> string" where
  "js_toString JUndefined = ''undefined''"
| "js_toString JNull = ''null''"
| "js_toString (JBool b) = (if b then ''true'' else ''false'')"
| "js_toString (JNum n) = show_int n"
| "js_toString (JStr s) = s"
| "js_toString (JArr xs) =
     join_js '','' (map (\<lambda>x. if x = JUndefined \<or> x = JNull then [] else js_toString x) xs)"
| "js_toString (JObj kvs) = ''[object Object]''"

text \<open>\<open>JSON.stringify\<close> without indentation; \<open>None\<close> stands for the result
  \<open>undefined\<close>.\<close>

definition DQ :: char where
  "DQ = CHR 0x22"

definition BSL :: char where
  "BSL = CHR 0x5C"

definition json_escape :: "char \<Rightarrow> string" where
  "json_escape c =
     (if c = DQ then [BSL, DQ]
      else if c = BSL then [BSL, BSL]
      else if c = CHR 0x08 then [BSL, CHR ''b'']
      else if c = CHR 0x09 then [BSL, CHR ''t'']
      else if c = CHR 0x0A then [BSL, CHR ''n'']
      else if c = CHR 0x0C then [BSL, CHR ''f'']
      else if c = CHR 0x0D then [BSL, CHR ''r'']
      else if (of_char c :: nat) < 32
      then [BSL, CHR ''u'', CHR ''0'', CHR ''0'',
            ''0123456789abcdef'' ! (of_char c div 16), ''0123456789abcdef'' ! (of_char c mod 16)]
      else [c])"

definition json_quote :: "string \<Rightarrow> string" where
  "json_quote s = DQ # concat (map json_escape s) @ [DQ]"

fun stringify :: "json \<Rightarrow> string option" where
  "stringify JUndefined = None"
| "stringify JNull = Some ''null''"
| "stringify (JBool b) = Some (if b then ''true'' else ''false'')"
| "stringify (JNum n) = Some (show_int n)"
| "stringify (JStr s) = Some (json_quote s)"
| "stringify (JArr xs) =
     Some (''['' @ join_js '','' (map (\<lambda>x. case stringify x of None \<Rightarrow> ''null'' | Some t \<Rightarrow> t) xs) @ '']'')"
| "stringify (JObj kvs) =
     Some (''{'' @ join_js '',''
             (concat (map (\<lambda>e. case stringify (snd e) of
                                   None \<Rightarrow> []
                                 | Some t \<Rightarrow> [json_quote (fst e) @ '':'' @ t]) kvs)) @ ''}'')"

text \<open>\<open>JSON.stringify(value, null, 2)\<close>; the first argument of the model is the current
  indentation.\<close>

definition NL :: string where
  "NL = [CHR 0x0A]"

fun stringify_indent :: "nat \<Rightarrow> json \<Rightarrow> string option" where
  "stringify_indent n JUndefined = None"
| "stringify_indent n JNull = Some ''null''"
| "stringify_indent n (JBool b) = Some (if b then ''true'' else ''false'')"
| "stringify_indent n (JNum i) = Some (show_int i)"
| "stringify_indent n (JStr s) = Some (json_quote s)"
| "stringify_indent n (JArr xs) =
     Some (if xs = [] then ''[]''
           else ''['' @ NL @
                join_js ('','' @ NL)
                  (map (\<lambda>x. replicate (n + 2) CHR '' '' @
                             (case stringify_indent (n + 2) x of None \<Rightarrow> ''null'' | Some t \<Rightarrow> t)) xs) @
                NL @ replicate n CHR '' '' @ '']'')"
| "stringify_indent n (JObj kvs) =
     (let items = concat (map (\<lambda>e. case stringify_indent (n + 2) (snd e) of
                                      None \<Rightarrow> []
                                    | Some t \<Rightarrow> [replicate (n + 2) CHR '' '' @ json_quote (fst e) @ '': '' @ t]) kvs)
      in Some (if items = [] then ''{}''
               else ''{'' @ NL @ join_js ('','' @ NL) items @ NL @ replicate n CHR '' '' @ ''}''))"

text \<open>\<open>Buffer.byteLength(s, 'utf-8')\<close>: a character below 128 takes one byte, the
  others of the model take two.\<close>

definition byteLength :: "string \<Rightarrow> nat" where
  "byteLength s = sum_list (map (\<lambda>c. if (of_char c :: nat) < 128 then 1 else 2) s)"

text \<open>\<open>Object.entries\<close>: it throws on \<open>null\<close>; an array or a string is enumerated by
  its indices; a number or a boolean has no entries.\<close>

fun object_entries :: "json \<Rightarrow> js_error + (string \<times> json) list" where
  "object_entries (JObj kvs) = Inr kvs"
| "object_entries (JArr xs) = Inr (zip (map show_nat [0..<length xs]) xs)"
| "object_entries (JStr s) = Inr (zip (map show_nat [0..<length s]) (map (\<lambda>c. JStr [c]) s))"
| "object_entries (JBool b) = Inr []"
| "object_entries (JNum n) = Inr []"
| "object_entries _ = Inl (JsError ''TypeError'' ''Cannot convert undefined or null to object'')"

text \<open>
  The first loop of \<open>formatHttpResponse\<close>: values are collected under the lower-cased
  name. \<open>normalizedHeaders\<close> is an object literal, so for the names \<open>constructor\<close> and
  \<open>__proto__\<close> the read finds the inherited member, and \<open>push\<close> on it throws.
\<close>

fun normalize_headers :: "(string \<times> json) list \<Rightarrow> json list jsobj \<Rightarrow> js_error + json list jsobj" where
  "normalize_headers [] nh = Inr nh"
| "normalize_headers ((name, values) # es) nh =
     (let lowerName = toLowerCase name;
          valueArray = (case values of JArr xs \<Rightarrow> xs | v \<Rightarrow> [v])
      in if lowerName = ''constructor'' \<or> lowerName = ''__proto__''
         then Inl (JsError ''TypeError'' ''normalizedHeaders[lowerName].push is not a function'')
         else normalize_headers es
                (jsobj_set lowerName
                   ((case map_of nh lowerName of None \<Rightarrow> [] | Some vs \<Rightarrow> vs) @ valueArray) nh))"

definition properName :: "string \<Rightarrow> string" where
  "properName name =
     join_js ''-'' (map (\<lambda>part. case part of [] \<Rightarrow> [] | c # cs \<Rightarrow> upper_char c # cs)
                     (split_js ''-'' name))"

definition formatHttpResponse :: "json \<Rightarrow> js_error + string" where
  "formatHttpResponse responseJson =
     (if \<not> truthy responseJson \<or> \<not> typeof_object responseJson
      then Inl (JsError ''Error'' ''Invalid response: not an object'')
      else
        (let preamble = get_prop responseJson ''preamble'';
             hdrs = (case get_prop responseJson ''headers'' of JUndefined \<Rightarrow> JObj [] | h \<Rightarrow> h);
             bdy = get_prop responseJson ''body''
         in if \<not> truthy preamble \<or> \<not> truthy (get_prop preamble ''version'') \<or>
               \<not> truthy (get_prop preamble ''status'') \<or> \<not> truthy (get_prop preamble ''reason'')
            then Inl (JsError ''Error'' ''Invalid response: missing or incomplete preamble'')
            else
              (let statusLine = js_toString (get_prop preamble ''version'') @ '' '' @
                                js_toString (get_prop preamble ''status'') @ '' '' @
                                js_toString (get_prop preamble ''reason'')
               in case object_entries hdrs of
                    Inl e \<Rightarrow> Inl e
                  | Inr entries \<Rightarrow>
                      (case normalize_headers entries [] of
                         Inl e \<Rightarrow> Inl e
                       | Inr normalizedHeaders \<Rightarrow>
                           (let headerLines =
                                  concat (map (\<lambda>e. map (\<lambda>v. properName (fst e) @ '': '' @ js_toString v) (snd e))
                                            normalizedHeaders);
                                bodyString =
                                  (if bdy = JNull \<or> bdy = JUndefined then []
                                   else (case bdy of
                                           JStr s \<Rightarrow> s
                                         | b \<Rightarrow> (case stringify b of None \<Rightarrow> [] | Some t \<Rightarrow> t)));
                                contentLength =
                                  (if map_of normalizedHeaders ''content-length'' = None \<and> bodyString \<noteq> []
                                   then [''Content-Length: '' @ show_nat (byteLength bodyString)]
                                   else [])
                            in Inr (join_js CRLF
                                      ([statusLine] @ headerLines @ contentLength @ [[], bodyString])))))))"

section \<open>Error envelopes and the delegate's answer (server.js)\<close>

definition statusReasons :: "int \<Rightarrow> string option" where
  "statusReasons = map_of
     [(400, ''Bad Request''), (401, ''Unauthorized''), (403, ''Forbidden''), (404, ''Not Found''),
      (405, ''Method Not Allowed''), (408, ''Request Timeout''), (413, ''Payload Too Large''),
      (429, ''Too Many Requests''), (500, ''Internal Server Error''), (501, ''Not Implemented''),
      (503, ''Service Unavailable''), (504, ''Gateway Timeout'')]"

text \<open>
  \<open>createErrorResponse(status, message, includeDetails)\<close>. The third argument of the
  model is \<open>None\<close> for \<open>includeDetails = false\<close> (the default, which every caller in the
  source uses) and \<open>Some ts\<close> for \<open>true\<close>, with \<open>ts\<close> the ISO time stamp of the call.
\<close>

definition createErrorResponse :: "int \<Rightarrow> string \<Rightarrow> string option \<Rightarrow> json" where
  "createErrorResponse status message includeDetails =
     (let reason = (case statusReasons status of None \<Rightarrow> ''Error'' | Some r \<Rightarrow> r);
          details = (case includeDetails of
                       None \<Rightarrow> []
                     | Some ts \<Rightarrow> if status < 500 then [(''timestamp'', JStr ts)] else [])
      in JObj [(''preamble'', JObj [(''version'', JStr ''HTTP/1.1''), (''status'', JNum status),
                                   (''reason'', JStr reason)]),
               (''headers'', JObj [(''Content-Type'', JArr [JStr ''application/json''])]),
               (''body'', JObj ([(''error'', JStr reason), (''message'', JStr message)] @ details))])"

text \<open>
  \<open>extractJsonResponse\<close> scans the delegate's text with two regular expressions and
  hands the candidates to \<open>JSON.parse\<close>. The scan is a parameter: \<open>candidates text\<close> is
  the list of the values that parsed, in the order in which the function tries them.
  The function returns the first one whose \<open>preamble\<close> is truthy.
\<close>

definition extractJsonResponse :: "(string \<Rightarrow> json list) \<Rightarrow> string \<Rightarrow> json" where
  "extractJsonResponse candidates text =
     (if text = [] then createErrorResponse 500 ''No response from Claude'' None
      else (case find (\<lambda>parsed. truthy (get_prop parsed ''preamble'')) (candidates text) of
              Some parsed \<Rightarrow> parsed
            | None \<Rightarrow> createErrorResponse 500 ''Failed to generate proper HTTP response'' None))"

section \<open>Request pipeline (server.js, processRequest)\<close>

definition MAX_CONCURRENT_REQUESTS :: int where
  "MAX_CONCURRENT_REQUESTS = 10"

definition MAX_RESPONSE_SIZE :: nat where
  "MAX_RESPONSE_SIZE = 10 * 1024 * 1024"

definition MAX_PROMPT_SIZE :: nat where
  "MAX_PROMPT_SIZE = 5 * 1024 * 1024"

text \<open>
  The state that outlives a request is the counter \<open>concurrentRequests\<close>. The model adds
  two logs, so that a theorem can speak of what happens while a request is being
  processed and not only of the state it leaves behind. \<open>counterWrites\<close> holds every
  value assigned to the counter, in the order of the assignments; \<open>delegateCalls\<close> holds,
  for every start of \<open>query\<close> of the agent SDK, the prompt and the value that the counter
  has at that moment.
\<close>

record server_state =
  concurrentRequests :: int
  counterWrites :: "int list"
  delegateCalls :: "(string \<times> int) list"

text \<open>An assignment to the counter: \<open>concurrentRequests++\<close> and
  \<open>concurrentRequests--\<close> are the only two in the source.\<close>

definition write_concurrentRequests :: "int \<Rightarrow> server_state \<Rightarrow> server_state" where
  "write_concurrentRequests v st =
     st\<lparr>concurrentRequests := v, counterWrites := counterWrites st @ [v]\<rparr>"

text \<open>
  What the agent SDK does for one call of \<open>query\<close>: the messages that the stream
  delivers, how the stream ends (it completes, or the iteration throws), and whether
  \<open>abortController.signal.aborted\<close> is set when the stream has ended (the timer of
  \<open>CLAUDE_TIMEOUT\<close> sets it).
\<close>

datatype content_block = TextBlock string | OtherBlock

datatype sdk_message =
    Assistant "content_block list"
  | Result string "string option"
  | OtherMessage

datatype stream_end = Completes | Throws js_error

record query_run =
  messages :: "sdk_message list"
  ending :: stream_end
  aborted :: bool

text \<open>
  The surroundings of one call of \<open>processRequest\<close>: the built-in decoder, the request
  id in effect (the argument, or the one that \<open>generateRequestId\<close> makes), the ISO time
  stamp of the call, the system prompt that \<open>loadSystemPrompt\<close> returns, the behaviour
  of the SDK for a prompt and a system prompt, and the scan of \<open>extractJsonResponse\<close>.
\<close>

record request_env =
  decodeURIComponent :: decoder
  requestId :: string
  timestamp :: string
  systemPrompt :: string
  runQuery :: "string \<Rightarrow> string \<Rightarrow> query_run"
  jsonCandidates :: "string \<Rightarrow> json list"

text \<open>The two template literals of \<open>processRequest\<close>: the description of the request
  and the prompt for the delegate.\<close>

definition requestDescription :: "ParsedRequest \<Rightarrow> string" where
  "requestDescription parsed =
     trim (NL @ method parsed @ '' '' @ path parsed @ '' '' @ version parsed @ NL @
           join_js NL (map (\<lambda>e. join_js NL (map (\<lambda>v. fst e @ '': '' @ v) (snd e))) (headers parsed)) @
           NL @ NL @ body parsed @ NL)"

definition backticks :: string where
  "backticks = replicate 3 (CHR 0x60)"

definition headers_json :: "string list jsobj \<Rightarrow> json" where
  "headers_json h = JObj (map (\<lambda>e. (fst e, JArr (map JStr (snd e)))) h)"

definition buildPrompt :: "string \<Rightarrow> string \<Rightarrow> ParsedRequest \<Rightarrow> string" where
  "buildPrompt rid ts parsed =
     ''Process this HTTP/1.1 request and generate an appropriate response:'' @ NL @ NL @
     ''## Raw Request'' @ NL @ backticks @ NL @ requestDescription parsed @ NL @ backticks @ NL @ NL @
     ''## Structured Request Context'' @ NL @
     ''- **Request ID**: '' @ rid @ NL @
     ''- **Method**: '' @ method parsed @ NL @
     ''- **Path**: '' @ path parsed @ NL @
     ''- **Timestamp**: '' @ ts @ NL @
     ''- **Headers**: '' @
       (case stringify_indent 0 (headers_json (headers parsed)) of None \<Rightarrow> [] | Some t \<Rightarrow> t) @ NL @
     (if body parsed \<noteq> []
      then ''- **Body**: '' @
           (if length (body parsed) > 200 then take 200 (body parsed) @ ''...'' else body parsed)
      else []) @ NL @ NL @
     ''Remember to respond with the JSON format specified in your instructions.''"

text \<open>
  The \<open>for await\<close> loop. \<open>Inl\<close> is a \<open>return\<close> from inside the loop, with what
  \<open>formatHttpResponse\<close> gave; \<open>Inr\<close> is the text and the size collected when the
  messages are exhausted.
\<close>

fun consume_blocks :: "content_block list \<Rightarrow> string \<Rightarrow> nat \<Rightarrow> (js_error + string) + (string \<times> nat)" where
  "consume_blocks [] fullResponse responseSize = Inr (fullResponse, responseSize)"
| "consume_blocks (TextBlock t # bs) fullResponse responseSize =
     (if responseSize + length t > MAX_RESPONSE_SIZE
      then Inl (formatHttpResponse (createErrorResponse 500 ''Response too large'' None))
      else consume_blocks bs (fullResponse @ t) (responseSize + length t))"
| "consume_blocks (OtherBlock # bs) fullResponse responseSize =
     consume_blocks bs fullResponse responseSize"

fun consume_stream :: "sdk_message list \<Rightarrow> string \<Rightarrow> nat \<Rightarrow> (js_error + string) + (string \<times> nat)" where
  "consume_stream [] fullResponse responseSize = Inr (fullResponse, responseSize)"
| "consume_stream (Assistant content # ms) fullResponse responseSize =
     (case consume_blocks content fullResponse responseSize of
        Inl r \<Rightarrow> Inl r
      | Inr (fullResponse', responseSize') \<Rightarrow> consume_stream ms fullResponse' responseSize')"
| "consume_stream (Result subtype result # ms) fullResponse responseSize =
     (if subtype = ''success''
      then (let resultText = (case result of None \<Rightarrow> [] | Some t \<Rightarrow> t) in
            if responseSize + length resultText > MAX_RESPONSE_SIZE
            then Inl (formatHttpResponse (createErrorResponse 500 ''Response too large'' None))
            else consume_stream ms (fullResponse @ resultText) (responseSize + length resultText))
      else if startsWith subtype ''error''
      then (if subtype = ''error_max_budget_usd''
            then Inl (formatHttpResponse (createErrorResponse 503 ''Service budget exceeded'' None))
            else if subtype = ''error_max_turns''
            then Inl (formatHttpResponse (createErrorResponse 500 ''Request too complex'' None))
            else consume_stream ms fullResponse responseSize)
      else consume_stream ms fullResponse responseSize)"
| "consume_stream (OtherMessage # ms) fullResponse responseSize =
     consume_stream ms fullResponse responseSize"

text \<open>The inner \<open>try\<close> block, from \<open>query\<close> to \<open>return formattedResponse\<close>; \<open>Inl\<close> is
  an exception that reaches the inner \<open>catch\<close>.\<close>

definition delegate_try :: "request_env \<Rightarrow> query_run \<Rightarrow> js_error + string" where
  "delegate_try env run =
     (case consume_stream (messages run) [] 0 of
        Inl r \<Rightarrow> r
      | Inr (fullResponse, responseSize) \<Rightarrow>
          (case ending run of
             Throws e \<Rightarrow> Inl e
           | Completes \<Rightarrow>
               formatHttpResponse (extractJsonResponse (jsonCandidates env) fullResponse)))"

text \<open>The inner \<open>try\<close> with its \<open>catch\<close>: a time-out answer when the error is an
  \<open>AbortError\<close> or the abort signal is set, otherwise the error is thrown again.\<close>

definition delegate :: "request_env \<Rightarrow> query_run \<Rightarrow> js_error + string" where
  "delegate env run =
     (case delegate_try env run of
        Inr response \<Rightarrow> Inr response
      | Inl error \<Rightarrow>
          if err_name error = ''AbortError'' \<or> aborted run
          then formatHttpResponse (createErrorResponse 504 ''Gateway timeout'' None)
          else Inl error)"

text \<open>The body of the outer \<open>try\<close>.\<close>

definition processRequest_try :: "request_env \<Rightarrow> string \<Rightarrow> server_state \<Rightarrow> (js_error + string) \<times> server_state" where
  "processRequest_try env rawRequest st =
     (case parseHttpRequest (decodeURIComponent env) rawRequest of
        Inl e \<Rightarrow> (Inl e, st)
      | Inr parsed \<Rightarrow>
          (let prompt = buildPrompt (requestId env) (timestamp env) parsed in
           if length prompt > MAX_PROMPT_SIZE
           then (formatHttpResponse
                   (createErrorResponse 413 ''Request data too large for processing'' None), st)
           else (delegate env (runQuery env prompt (systemPrompt env)),
                 st\<lparr>delegateCalls := delegateCalls st @ [(prompt, concurrentRequests st)]\<rparr>)))"

text \<open>The outer \<open>catch\<close>.\<close>

definition processRequest_catch :: "js_error \<Rightarrow> js_error + string" where
  "processRequest_catch error =
     (if err_message error \<noteq> [] \<and> includes_js (err_message error) ''Invalid request''
      then formatHttpResponse (createErrorResponse 400 ''Malformed HTTP request'' None)
      else formatHttpResponse (createErrorResponse 500 ''Internal server error'' None))"

text \<open>\<open>processRequest\<close>: the capacity check, the increment, the \<open>try\<close> with its
  \<open>catch\<close>, and the decrement of the \<open>finally\<close> clause.\<close>

definition processRequest :: "request_env \<Rightarrow> string \<Rightarrow> server_state \<Rightarrow> (js_error + string) \<times> server_state" where
  "processRequest env rawRequest st =
     (if concurrentRequests st \<ge> MAX_CONCURRENT_REQUESTS
      then (formatHttpResponse (createErrorResponse 503 ''Server busy, please try again later'' None), st)
      else
        (let st1 = write_concurrentRequests (concurrentRequests st + 1) st;
             (r, st2) = processRequest_try env rawRequest st1;
             response = (case r of Inl error \<Rightarrow> processRequest_catch error | Inr w \<Rightarrow> Inr w)
         in (response, write_concurrentRequests (concurrentRequests st2 - 1) st2)))"

text \<open>Requests served one after the other, each to completion.\<close>

fun processRequests :: "(request_env \<times> string) list \<Rightarrow> server_state \<Rightarrow> (js_error + string) list \<times> server_state" where
  "processRequests [] st = ([], st)"
| "processRequests ((env, rawRequest) # rs) st =
     (let (w, st') = processRequest env rawRequest st;
          (ws, st'') = processRequests rs st'
      in (w # ws, st''))"

text \<open>The wire text of the error envelopes that the theorems name.\<close>

definition error_body :: "string \<Rightarrow> string \<Rightarrow> string" where
  "error_body reason message =
     ''{'' @ [DQ] @ ''error'' @ [DQ] @ '':'' @ [DQ] @ reason @ [DQ] @ '','' @
     [DQ] @ ''message'' @ [DQ] @ '':'' @ [DQ] @ message @ [DQ] @ ''}''"

definition error_wire :: "string \<Rightarrow> string \<Rightarrow> string \<Rightarrow> string \<Rightarrow> string" where
  "error_wire status reason len message =
     ''HTTP/1.1 '' @ status @ '' '' @ reason @ CRLF @
     ''Content-Type: application/json'' @ CRLF @
     ''Content-Length: '' @ len @ CRLF @ CRLF @ error_body reason message"

section \<open>Sandbox path validator (tools.js, validateAndResolvePath)\<close>

text \<open>
  The functions of Node's \<open>path\<close> module that the validator calls, in their POSIX
  variant (\<open>path.sep\<close> is \<open>/\<close>). \<open>normalizeString\<close> is the loop behind
  \<open>path.resolve\<close> and \<open>path.normalize\<close>: it drops empty segments and \<open>.\<close>, and lets
  \<open>..\<close> remove the segment before it; above the root, \<open>..\<close> is kept only when
  \<open>allowAboveRoot\<close> holds.
\<close>

fun normalize_segments :: "bool \<Rightarrow> string list \<Rightarrow> string list \<Rightarrow> string list" where
  "normalize_segments allowAboveRoot [] res = res"
| "normalize_segments allowAboveRoot (seg # segs) res =
     (if seg = [] \<or> seg = ''.'' then normalize_segments allowAboveRoot segs res
      else if seg = ''..''
      then (if res \<noteq> [] \<and> last res \<noteq> ''..''
            then normalize_segments allowAboveRoot segs (butlast res)
            else if allowAboveRoot
            then normalize_segments allowAboveRoot segs (res @ [''..''])
            else normalize_segments allowAboveRoot segs res)
      else normalize_segments allowAboveRoot segs (res @ [seg]))"

definition normalizeString :: "string \<Rightarrow> bool \<Rightarrow> string" where
  "normalizeString p allowAboveRoot =
     join_js ''/'' (normalize_segments allowAboveRoot (split_js ''/'' p) [])"

definition isAbsolute :: "string \<Rightarrow> bool" where
  "isAbsolute p = (case p of [] \<Rightarrow> False | c # _ \<Rightarrow> c = CHR ''/'')"

text \<open>\<open>path.resolve(...args)\<close>: the arguments are taken from the right until an
  absolute one is found, and the working directory stands behind the first.\<close>

fun resolve_loop :: "string list \<Rightarrow> string \<Rightarrow> string \<times> bool" where
  "resolve_loop [] resolvedPath = (resolvedPath, False)"
| "resolve_loop (p # ps) resolvedPath =
     (if p = [] then resolve_loop ps resolvedPath
      else if isAbsolute p then (p @ ''/'' @ resolvedPath, True)
      else resolve_loop ps (p @ ''/'' @ resolvedPath))"

definition path_resolve :: "string \<Rightarrow> string list \<Rightarrow> string" where
  "path_resolve cwd args =
     (let (resolvedPath, resolvedAbsolute) = resolve_loop (rev args @ [cwd]) [];
          n = normalizeString resolvedPath (\<not> resolvedAbsolute)
      in if resolvedAbsolute then ''/'' @ n else if n \<noteq> [] then n else ''.'')"

definition path_normalize :: "string \<Rightarrow> string" where
  "path_normalize p =
     (if p = [] then ''.''
      else (let trailingSeparator = (last p = CHR ''/'');
                n = normalizeString p (\<not> isAbsolute p)
            in if n = [] then (if isAbsolute p then ''/'' else if trailingSeparator then ''./'' else ''.'')
               else (if isAbsolute p then ''/'' else []) @ n @ (if trailingSeparator then ''/'' else [])))"

definition path_dirname :: "string \<Rightarrow> string" where
  "path_dirname p =
     (if p = [] then ''.''
      else (let upto = dropWhile (\<lambda>c. c \<noteq> CHR ''/'')
                         (dropWhile (\<lambda>c. c = CHR ''/'') (rev (tl p)))
            in if upto = [] then (if isAbsolute p then ''/'' else ''.'')
               else if isAbsolute p \<and> length upto = 1 then ''//''
               else take (length upto) p))"

text \<open>
  The file system enters through \<open>fs.realpath\<close>, a parameter of the model: for a path it
  gives the path with every symbolic link resolved, or fails with an error code
  (\<open>ENOENT\<close> when the path does not exist).
\<close>

datatype fs_result = RealPath string | FsError string

text \<open>\<open>FILE_STORAGE_DIR\<close> comes from \<open>path.resolve\<close> or from a join with the module's
  directory; it is the argument \<open>root\<close> of the model. \<open>cwd\<close> is the working directory
  of the process, which \<open>path.resolve\<close> consults only when \<open>root\<close> is not absolute.\<close>

definition SAFE_BASE_DIR :: "string \<Rightarrow> string" where
  "SAFE_BASE_DIR root = toLowerCase (path_normalize root)"

definition SAFE_BASE_DIR_ORIGINAL :: "string \<Rightarrow> string" where
  "SAFE_BASE_DIR_ORIGINAL root = path_normalize root"

definition access_denied :: "string \<Rightarrow> js_error" where
  "access_denied reason = JsError ''Error'' (''Access denied: '' @ reason)"

definition validateAndResolvePath ::
    "string \<Rightarrow> string \<Rightarrow> (string \<Rightarrow> fs_result) \<Rightarrow> string \<Rightarrow> js_error + string" where
  "validateAndResolvePath cwd root realpath filepath =
     (if isAbsolute filepath then Inl (access_denied ''Absolute paths not allowed'')
      else if CHR 0x00 \<in> set filepath then Inl (access_denied ''Null bytes in path'')
      else if endsWith filepath ''/'' \<or> endsWith filepath [BSL]
      then Inl (access_denied ''Path cannot end with separator'')
      else
        (let resolvedPath = path_resolve cwd [SAFE_BASE_DIR_ORIGINAL root, filepath];
             normalizedPath = path_normalize resolvedPath;
             normalizedLower = toLowerCase normalizedPath
         in if \<not> startsWith normalizedLower (SAFE_BASE_DIR root)
            then Inl (access_denied ''Path is outside allowed directory'')
            else (case realpath normalizedPath of
                    RealPath realPath \<Rightarrow>
                      if \<not> startsWith (toLowerCase realPath) (SAFE_BASE_DIR root)
                      then Inl (access_denied ''Symlink points outside allowed directory'')
                      else Inr realPath
                  | FsError code \<Rightarrow>
                      if code = ''ENOENT''
                      then (case realpath (path_dirname normalizedPath) of
                              RealPath realParentPath \<Rightarrow>
                                if \<not> startsWith (toLowerCase realParentPath) (SAFE_BASE_DIR root)
                                then Inl (access_denied ''Parent directory does not exist'')
                                else Inr normalizedPath
                            | FsError c \<Rightarrow> Inl (access_denied ''Parent directory does not exist''))
                      else Inl (JsError ''Error'' code))))"

text \<open>
  Containment, as the claim about the validator means it: the directories of the root
  lead to the path, segment by segment.
\<close>

definition path_segments :: "string \<Rightarrow> string list" where
  "path_segments p = filter (\<lambda>s. s \<noteq> []) (split_js ''/'' p)"

definition inside_root :: "string \<Rightarrow> string \<Rightarrow> bool" where
  "inside_root root p = prefix (path_segments root) (path_segments p)"

text \<open>Two file systems without symbolic links: one in which every path exists, and one
  in which every path exists but the file \<open>/srv/files-evil/new.txt\<close>.\<close>

definition plain_fs :: "string \<Rightarrow> fs_result" where
  "plain_fs p = RealPath p"

definition new_file_fs :: "string \<Rightarrow> fs_result" where
  "new_file_fs p = (if p = ''/srv/files-evil/new.txt'' then FsError ''ENOENT'' else RealPath p)"

section \<open>Statement execution tool (tools.js, sqliteTool)\<close>

definition MAX_QUERY_SIZE :: nat where
  "MAX_QUERY_SIZE = 1 * 1024 * 1024"

text \<open>
  \<open>READONLY_SQL_PATTERNS\<close>, each regular expression written out as the test it performs
  on the trimmed query. Letters are compared without regard to case; \<open>\s\<close> is the white
  space of \<open>is_js_space\<close>.
\<close>

definition ci_prefix :: "string \<Rightarrow> string \<Rightarrow> bool" where
  "ci_prefix kw s = (toLowerCase (take (length kw) s) = kw)"

definition space_next :: "string \<Rightarrow> bool" where
  "space_next s = (case s of [] \<Rightarrow> False | c # _ \<Rightarrow> is_js_space c)"

definition keyword_then_space :: "string \<Rightarrow> string \<Rightarrow> bool" where
  "keyword_then_space kw s = (ci_prefix kw s \<and> space_next (drop (length kw) s))"

fun space_select_space :: "string \<Rightarrow> bool" where
  "space_select_space [] = False"
| "space_select_space (c # cs) =
     ((is_js_space c \<and> keyword_then_space ''select'' cs) \<or> space_select_space cs)"

definition readonly_pragmas :: "string list" where
  "readonly_pragmas =
     [''table_info'', ''index_list'', ''foreign_key_list'', ''database_list'', ''compile_options'']"

definition pragma_pattern :: "string \<Rightarrow> bool" where
  "pragma_pattern s =
     (keyword_then_space ''pragma'' s \<and>
      (let r = dropWhile is_js_space (drop 6 s) in
       \<exists>name \<in> set readonly_pragmas.
         ci_prefix name r \<and>
         (case dropWhile is_js_space (drop (length name) r) of
            [] \<Rightarrow> False
          | c # _ \<Rightarrow> c = CHR ''('')))"

definition with_pattern :: "string \<Rightarrow> bool" where
  "with_pattern s = (keyword_then_space ''with'' s \<and> space_select_space (drop 5 s))"

definition isReadOnlyQuery :: "string \<Rightarrow> bool" where
  "isReadOnlyQuery sqlQuery =
     (let s = dropWhile is_js_space (trim sqlQuery) in
      keyword_then_space ''select'' s \<or> keyword_then_space ''explain'' s \<or>
      pragma_pattern s \<or> with_pattern s)"

text \<open>
  The database engine (better-sqlite3) is outside the repository. A prepared statement
  offers \<open>all\<close> and \<open>run\<close>; each call either throws or gives its result. The rows are
  JSON values; \<open>run\<close> reports \<open>changes\<close> and \<open>lastInsertRowid\<close>.
\<close>

record statement =
  stmt_all :: "json list \<Rightarrow> js_error + json list"
  stmt_run :: "json list \<Rightarrow> js_error + int \<times> int"

record database =
  getDatabase :: "js_error + unit"
  prepare :: "string \<Rightarrow> js_error + statement"

text \<open>What the tool hands back: the text of its single content item, and whether
  \<open>isError\<close> is set.\<close>

record tool_result =
  content_text :: string
  isError :: bool

definition tool_payload :: "json \<Rightarrow> string" where
  "tool_payload v = (case stringify_indent 0 v of None \<Rightarrow> [] | Some t \<Rightarrow> t)"

text \<open>The \<open>try\<close> block of the tool; \<open>Inl\<close> is an exception that reaches its \<open>catch\<close>.
  The refresh of the schema cache after \<open>CREATE\<close>, \<open>ALTER\<close> or \<open>DROP TABLE\<close> catches
  its own errors and does not change the result, so it is left out.\<close>

definition sqliteTool_try :: "database \<Rightarrow> string \<Rightarrow> json list \<Rightarrow> js_error + tool_result" where
  "sqliteTool_try db sqlQuery params =
     (if length sqlQuery > MAX_QUERY_SIZE
      then Inl (JsError ''Error''
                  (''Query too large: '' @ show_nat (length sqlQuery) @ '' bytes (max: '' @
                   show_nat MAX_QUERY_SIZE @ '' bytes)''))
      else (case getDatabase db of
              Inl e \<Rightarrow> Inl e
            | Inr _ \<Rightarrow>
                if isReadOnlyQuery sqlQuery
                then (case prepare db sqlQuery of
                        Inl e \<Rightarrow> Inl e
                      | Inr stmt \<Rightarrow>
                          (case stmt_all stmt params of
                             Inl e \<Rightarrow> Inl e
                           | Inr results \<Rightarrow>
                               Inr \<lparr>content_text =
                                      tool_payload (JObj [(''success'', JBool True),
                                                          (''rows'', JArr results),
                                                          (''rowCount'', JNum (int (length results)))]),
                                    isError = False\<rparr>))
                else (case prepare db sqlQuery of
                        Inl e \<Rightarrow> Inl e
                      | Inr stmt \<Rightarrow>
                          (case stmt_run stmt params of
                             Inl e \<Rightarrow> Inl e
                           | Inr (changes, lastInsertRowid) \<Rightarrow>
                               Inr \<lparr>content_text =
                                      tool_payload (JObj [(''success'', JBool True),
                                                          (''changes'', JNum changes),
                                                          (''lastInsertRowid'', JNum lastInsertRowid)]),
                                    isError = False\<rparr>))))"

definition sqliteTool :: "database \<Rightarrow> string \<Rightarrow> json list \<Rightarrow> tool_result" where
  "sqliteTool db sqlQuery params =
     (case sqliteTool_try db sqlQuery params of
        Inr r \<Rightarrow> r
      | Inl error \<Rightarrow>
          \<lparr>content_text = tool_payload (JObj [(''success'', JBool False),
                                               (''error'', JStr ''Database error'')]),
           isError = True\<rparr>)"

text \<open>The engine raises: opening the database, preparing the statement, or executing it
  throws.\<close>

definition engine_raises :: "database \<Rightarrow> string \<Rightarrow> json list \<Rightarrow> bool" where
  "engine_raises db sqlQuery params =
     (case getDatabase db of
        Inl e \<Rightarrow> True
      | Inr _ \<Rightarrow>
          (case prepare db sqlQuery of
             Inl e \<Rightarrow> True
           | Inr stmt \<Rightarrow>
               if isReadOnlyQuery sqlQuery then isl (stmt_all stmt params)
               else isl (stmt_run stmt params)))"

definition database_error_text :: string where
  "database_error_text =
     ''{'' @ NL @ ''  '' @ [DQ] @ ''success'' @ [DQ] @ '': false,'' @ NL @
     ''  '' @ [DQ] @ ''error'' @ [DQ] @ '': '' @ [DQ] @ ''Database error'' @ [DQ] @ NL @ ''}''"

text \<open>An engine for the examples: it knows no table, and says so in its error.\<close>

definition ex_database :: database where
  "ex_database =
     \<lparr>getDatabase = Inr (),
      prepare = (\<lambda>q. Inl (JsError ''SqliteError'' (''no such table: users, in '' @ q)))\<rparr>"

section \<open>Example inputs\<close>

text \<open>Requests, an agent run and server states on which the theorems below are
  exercised.\<close>

definition ex_raw :: string where
  "ex_raw = ''GET /api/users HTTP/1.1'' @ CRLF @ ''Host: x'' @ CRLF @ CRLF"

definition ex_parsed :: ParsedRequest where
  "ex_parsed =
     \<lparr>method = ''GET'', path = ''/api/users'', fullPath = ''/api/users'', query = [],
      version = ''HTTP/1.1'', headers = [(''host'', [''x''])], body = []\<rparr>"

definition ex_post_raw :: string where
  "ex_post_raw =
     ''POST /notes?tag=a&tag=b&draft HTTP/1.1'' @ CRLF @ ''Host: x'' @ CRLF @
     ''Content-Type: text/plain'' @ CRLF @ CRLF @ ''first'' @ CRLF @ CRLF @ ''second''"

definition ex_post_parsed :: ParsedRequest where
  "ex_post_parsed =
     \<lparr>method = ''POST'', path = ''/notes'', fullPath = ''/notes?tag=a&tag=b&draft'',
      query = [(''tag'', ''b''), (''draft'', [])], version = ''HTTP/1.1'',
      headers = [(''host'', [''x'']), (''content-type'', [''text/plain''])],
      body = ''first'' @ CRLF @ CRLF @ ''second''\<rparr>"

definition ex_proto_raw :: string where
  "ex_proto_raw = ''GET /?__proto__=a&__proto__=b HTTP/1.1'' @ CRLF @ CRLF"

text \<open>An envelope whose preamble has no \<open>status\<close>.\<close>

definition ex_bad_envelope :: json where
  "ex_bad_envelope =
     JObj [(''preamble'', JObj [(''version'', JStr ''HTTP/1.1''), (''reason'', JStr ''OK'')]),
           (''headers'', JObj [(''Content-Type'', JArr [JStr ''text/plain''])]),
           (''body'', JStr ''hello'')]"

definition ex_run :: "bool \<Rightarrow> query_run" where
  "ex_run ab =
     \<lparr>messages = [Assistant [TextBlock ''Here is the response: '', OtherBlock],
                  Result ''success'' (Some ''(envelope)'')],
      ending = Completes, aborted = ab\<rparr>"

definition ex_env :: "bool \<Rightarrow> request_env" where
  "ex_env ab =
     \<lparr>decodeURIComponent = ex_decode,
      requestId = ''req_1700000000000_k3j9x2m1q'',
      timestamp = ''2023-11-14T22:13:20.000Z'',
      systemPrompt = ''You are an HTTP server.'',
      runQuery = (\<lambda>prompt sys. ex_run ab),
      jsonCandidates = (\<lambda>text. [JNull, ex_bad_envelope])\<rparr>"

definition ex_state :: server_state where
  "ex_state = \<lparr>concurrentRequests = 0, counterWrites = [], delegateCalls = []\<rparr>"

definition ex_full_state :: server_state where
  "ex_full_state = \<lparr>concurrentRequests = 10, counterWrites = [], delegateCalls = []\<rparr>"

section \<open>Properties of the rate limiter\<close>

lemma checkRateLimit_other:
  "ip' \<noteq> ip \<Longrightarrow> snd (checkRateLimit ip' t m) ip = m ip"
  by (simp add: checkRateLimit_def split: option.splits)

lemma sweep_keeps:
  "m ip = Some d \<Longrightarrow> t \<le> resetTime d \<Longrightarrow> sweepRateLimit t m ip = Some d"
  by (simp add: sweepRateLimit_def RATE_LIMIT_WINDOW_def)

lemma run_events_Request:
  "fst (run_events (Request ip t # es) m) =
     (ip, fst (checkRateLimit ip t m)) # fst (run_events es (snd (checkRateLimit ip t m)))"
  by (simp add: case_prod_beta)

lemma run_events_Sweep:
  "fst (run_events (Sweep t # es) m) = fst (run_events es (sweepRateLimit t m))"
  by simp

lemma run_events_in_window:
  assumes "m ip = Some d" and "\<forall>e\<in>set es. event_time e \<le> resetTime d"
  shows "answers_for ip (fst (run_events es m)) =
           replicate (min (requests_of ip es) (nat (RATE_LIMIT_MAX_REQUESTS - count d))) True @
           replicate (requests_of ip es - nat (RATE_LIMIT_MAX_REQUESTS - count d)) False"
  using assms
proof (induction es arbitrary: m d)
  case Nil
  then show ?case by (simp add: answers_for_def requests_of_def)
next
  case (Cons e es)
  show ?case
  proof (cases e)
    case (Sweep t)
    with Cons.prems have "sweepRateLimit t m ip = Some d"
      by (intro sweep_keeps) auto
    from Cons.IH[of "sweepRateLimit t m" d] this Cons.prems(2) Sweep show ?thesis
      by (simp add: requests_of_def)
  next
    case (Request ip' t)
    show ?thesis
    proof (cases "ip' = ip")
      case False
      then have "snd (checkRateLimit ip' t m) ip = Some d"
        using Cons.prems(1) by (simp add: checkRateLimit_other)
      from Cons.IH[of "snd (checkRateLimit ip' t m)" d] this Cons.prems(2) Request False show ?thesis
        by (simp add: requests_of_def answers_for_def run_events_Request del: run_events.simps)
    next
      case True
      have t: "t \<le> resetTime d" using Cons.prems(2) Request by simp
      show ?thesis
      proof (cases "count d \<ge> RATE_LIMIT_MAX_REQUESTS")
        case full: True
        then have c: "checkRateLimit ip t m = (False, m)"
          using Cons.prems(1) t by (simp add: checkRateLimit_def)
        from Cons.IH[of m d] Cons.prems Request True full c show ?thesis
          by (simp add: requests_of_def answers_for_def run_events_Request del: run_events.simps)
      next
        case False
        let ?d = "d\<lparr>count := count d + 1\<rparr>"
        from False have c: "checkRateLimit ip t m = (True, m(ip \<mapsto> ?d))"
          using Cons.prems(1) t by (simp add: checkRateLimit_def)
        have ih: "answers_for ip (fst (run_events es (m(ip \<mapsto> ?d)))) =
           replicate (min (requests_of ip es) (nat (RATE_LIMIT_MAX_REQUESTS - count ?d))) True @
           replicate (requests_of ip es - nat (RATE_LIMIT_MAX_REQUESTS - count ?d)) False"
          by (rule Cons.IH[of "m(ip \<mapsto> ?d)" ?d]) (use Cons.prems(2) in simp_all)
        have k: "nat (RATE_LIMIT_MAX_REQUESTS - count d) = Suc (nat (RATE_LIMIT_MAX_REQUESTS - count ?d))"
          using False by simp
        have req: "requests_of ip (e # es) = Suc (requests_of ip es)"
          using Request True by (simp add: requests_of_def)
        have ans: "answers_for ip (fst (run_events (e # es) m)) =
            True # answers_for ip (fst (run_events es (m(ip \<mapsto> ?d))))"
          using Request True c by (simp add: answers_for_def run_events_Request del: run_events.simps)
        show ?thesis unfolding ans ih req k by simp
      qed
    qed
  qed
qed

text \<open>
  C3. A client whose window starts with a request at \<open>t0\<close> (it has no entry, or its stored
  reset time has passed) and who makes \<open>RATE_LIMIT_MAX_REQUESTS\<close> further requests before
  the window ends is allowed the first \<open>RATE_LIMIT_MAX_REQUESTS\<close> requests and denied the
  next one, whatever other clients and the sweep do in between. And the first request
  after the stored reset time has passed is allowed, and stores count 1 and the reset
  time \<open>now + RATE_LIMIT_WINDOW\<close>.
\<close>

theorem checkRateLimit_window:
  "((case m ip of None \<Rightarrow> True | Some d \<Rightarrow> t0 > resetTime d) \<and>
    (\<forall>e\<in>set es. event_time e \<le> t0 + RATE_LIMIT_WINDOW) \<and>
    requests_of ip es = nat RATE_LIMIT_MAX_REQUESTS
    \<longrightarrow> answers_for ip (fst (run_events (Request ip t0 # es) m)) =
          replicate (nat RATE_LIMIT_MAX_REQUESTS) True @ [False]) \<and>
   (m ip = Some d \<and> now > resetTime d
    \<longrightarrow> checkRateLimit ip now m =
          (True, m(ip \<mapsto> \<lparr>count = 1, resetTime = now + RATE_LIMIT_WINDOW\<rparr>)))"
proof (intro conjI impI)
  assume "m ip = Some d \<and> now > resetTime d"
  then show "checkRateLimit ip now m =
          (True, m(ip \<mapsto> \<lparr>count = 1, resetTime = now + RATE_LIMIT_WINDOW\<rparr>))"
    by (simp add: checkRateLimit_def)
next
  assume a: "(case m ip of None \<Rightarrow> True | Some d \<Rightarrow> t0 > resetTime d) \<and>
    (\<forall>e\<in>set es. event_time e \<le> t0 + RATE_LIMIT_WINDOW) \<and>
    requests_of ip es = nat RATE_LIMIT_MAX_REQUESTS"
  let ?d = "\<lparr>count = 1, resetTime = t0 + RATE_LIMIT_WINDOW\<rparr>"
  from a have c: "checkRateLimit ip t0 m = (True, m(ip \<mapsto> ?d))"
    by (auto simp add: checkRateLimit_def split: option.splits)
  obtain n where n: "nat RATE_LIMIT_MAX_REQUESTS = Suc n"
    by (cases "nat RATE_LIMIT_MAX_REQUESTS") (simp_all add: RATE_LIMIT_MAX_REQUESTS_def)
  have "answers_for ip (fst (run_events es (m(ip \<mapsto> ?d)))) =
      replicate (min (requests_of ip es) (nat (RATE_LIMIT_MAX_REQUESTS - count ?d))) True @
      replicate (requests_of ip es - nat (RATE_LIMIT_MAX_REQUESTS - count ?d)) False"
    by (rule run_events_in_window[of "m(ip \<mapsto> ?d)" ip ?d es]) (use a in simp_all)
  moreover have "nat (RATE_LIMIT_MAX_REQUESTS - count ?d) = n"
    using n by simp
  moreover have "requests_of ip es = Suc n" using a n by simp
  ultimately have "answers_for ip (fst (run_events es (m(ip \<mapsto> ?d)))) =
      replicate n True @ [False]"
    by simp
  then show "answers_for ip (fst (run_events (Request ip t0 # es) m)) =
          replicate (nat RATE_LIMIT_MAX_REQUESTS) True @ [False]"
    using c n by (simp add: answers_for_def run_events_Request del: run_events.simps)
qed

theorem checkRateLimit_window_witness:
  "answers_for ex_ip (fst (run_events (Request ex_ip 1000 # ex_events) ex_table)) =
     replicate 100 True @ [False] \<and>
   checkRateLimit ex_ip 1000 ex_table =
     (True, ex_table(ex_ip \<mapsto> \<lparr>count = 1, resetTime = 61000\<rparr>))"
proof -
  have h1: "case ex_table ex_ip of None \<Rightarrow> True | Some d \<Rightarrow> 1000 > resetTime d"
    by (simp add: ex_table_def)
  have h2: "\<forall>e\<in>set ex_events. event_time e \<le> 1000 + RATE_LIMIT_WINDOW"
    by (simp add: ex_events_def RATE_LIMIT_WINDOW_def)
  have h3: "requests_of ex_ip ex_events = nat RATE_LIMIT_MAX_REQUESTS"
    by (simp add: ex_events_def ex_ip_def requests_of_def RATE_LIMIT_MAX_REQUESTS_def)
  have h4: "ex_table ex_ip = Some \<lparr>count = 100, resetTime = 500\<rparr> \<and>
            1000 > resetTime \<lparr>count = 100, resetTime = 500\<rparr>"
    by (simp add: ex_table_def)
  have n: "nat RATE_LIMIT_MAX_REQUESTS = 100" "1000 + RATE_LIMIT_WINDOW = 61000"
    by (simp_all add: RATE_LIMIT_MAX_REQUESTS_def RATE_LIMIT_WINDOW_def)
  from checkRateLimit_window [where m = ex_table and ip = ex_ip and ?t0.0 = 1000 and es = ex_events
      and d = "\<lparr>count = 100, resetTime = 500\<rparr>" and now = 1000] h1 h2 h3 h4
  show ?thesis unfolding n by blast
qed

text \<open>
  C4. A denied check leaves the table as it was; and a check is denied exactly when the
  client has an entry whose window has not expired and whose count has reached
  \<open>RATE_LIMIT_MAX_REQUESTS\<close>.
\<close>

theorem checkRateLimit_denied_frame:
  "(\<not> fst (checkRateLimit ip now m) \<longrightarrow> snd (checkRateLimit ip now m) = m) \<and>
   (\<not> fst (checkRateLimit ip now m) \<longleftrightarrow>
      (\<exists>d. m ip = Some d \<and> \<not> now > resetTime d \<and> count d \<ge> RATE_LIMIT_MAX_REQUESTS))"
  by (auto simp: checkRateLimit_def split: option.splits)

theorem checkRateLimit_denied_frame_witness:
  "\<not> fst (checkRateLimit ex_ip 400 ex_table) \<and> snd (checkRateLimit ex_ip 400 ex_table) = ex_table"
  using checkRateLimit_denied_frame [where ip = ex_ip and now = 400 and m = ex_table]
  by (simp add: ex_table_def RATE_LIMIT_MAX_REQUESTS_def)

section \<open>Properties of the parser\<close>

lemma split_js_nonempty: "split_js sep s \<noteq> []"
  by (induction sep s rule: split_js.induct) (auto split: list.splits)

lemma join_js_Cons: "ys \<noteq> [] \<Longrightarrow> join_js sep (x # ys) = x @ sep @ join_js sep ys"
  by (cases ys) simp_all

lemma join_js_Cons_Cons: "join_js sep ((x # p) # ps) = x # join_js sep (p # ps)"
  by (cases ps) simp_all

lemma join_split_js: "join_js sep (split_js sep s) = s"
proof (induction sep s rule: split_js.induct)
  case (1 sep)
  show ?case by simp
next
  case (2 sep x xs)
  show ?case
  proof (cases "sep \<noteq> [] \<and> take (length sep) (x # xs) = sep")
    case True
    then have "x # xs = sep @ drop (length sep) (x # xs)"
      by (metis append_take_drop_id)
    moreover have "drop (length sep) (x # xs) = drop (length sep - 1) xs"
      using True by (cases sep) simp_all
    ultimately have eq: "x # xs = sep @ drop (length sep - 1) xs" by simp
    have "join_js sep (split_js sep (x # xs)) =
          sep @ join_js sep (split_js sep (drop (length sep - 1) xs))"
      using True by (simp add: join_js_Cons split_js_nonempty del: split_js.simps(2))
         (simp add: join_js_Cons split_js_nonempty)
    with 2(1)[OF True] eq show ?thesis by simp
  next
    case False
    obtain p ps where ps: "split_js sep xs = p # ps"
      using split_js_nonempty[of sep xs] by (cases "split_js sep xs") auto
    with False have "split_js sep (x # xs) = (x # p) # ps" by auto
    with 2(2)[OF False] ps show ?thesis by (simp add: join_js_Cons_Cons)
  qed
qed

lemma join_js_append:
  "xs \<noteq> [] \<Longrightarrow> ys \<noteq> [] \<Longrightarrow> join_js sep (xs @ ys) = join_js sep xs @ sep @ join_js sep ys"
proof (induction xs)
  case Nil
  then show ?case by simp
next
  case (Cons x xs)
  show ?case
  proof (cases xs)
    case Nil
    with Cons.prems show ?thesis by (simp add: join_js_Cons)
  next
    case (Cons a as)
    with Cons.IH Cons.prems show ?thesis by (simp add: join_js_Cons)
  qed
qed

lemma headers_loop_index:
  "headers_loop ls i h = Inr (h', j) \<Longrightarrow> j = i + length (takeWhile (\<lambda>l. l \<noteq> []) ls)"
proof (induction ls arbitrary: i h)
  case Nil
  then show ?case by simp
next
  case (Cons l ls)
  show ?case
  proof (cases "l = []")
    case True
    with Cons.prems show ?thesis by simp
  next
    case False
    with Cons.prems obtain h'' where "headers_loop ls (Suc i) h'' = Inr (h', j)"
      by (auto simp: Let_def split: if_splits sum.splits)
    from Cons.IH[OF this] False show ?thesis by simp
  qed
qed

lemma length_takeWhile_take:
  "take (length (takeWhile P s)) s = takeWhile P s"
  by (induction s) auto

lemma takeWhile_absent: "c \<notin> set s \<Longrightarrow> takeWhile (\<lambda>x. x \<noteq> c) s = s"
  by (induction s) auto

lemma take_indexOf:
  "(if indexOf c s > -1 then take (nat (indexOf c s)) s else s) = takeWhile (\<lambda>x. x \<noteq> c) s"
  by (cases "c \<in> set s") (simp_all add: indexOf_def length_takeWhile_take takeWhile_absent)

lemma parseHttpRequest_Inr:
  assumes "parseHttpRequest dec rawRequest = Inr r"
  obtains rl rest i where
    "rawRequest \<noteq> []" and "split_js CRLF rawRequest = rl # rest" and "rl \<noteq> []" and
    "split_js '' '' rl = [method r, fullPath r, version r]" and
    "path r = takeWhile (\<lambda>c. c \<noteq> CHR ''?'') (fullPath r)" and
    "parse_query_params dec (query_pairs (fullPath r)) [] = Inr (query r)" and
    "headers_loop rest 0 [] = Inr (headers r, i)" and
    "body r = join_js CRLF (drop (i + 1) rest)"
proof -
  from assms have ne: "rawRequest \<noteq> []"
    by (auto simp: parseHttpRequest_def split: if_splits)
  from assms obtain rl rest where sp: "split_js CRLF rawRequest = rl # rest"
    by (cases "split_js CRLF rawRequest") (auto simp: parseHttpRequest_def split: if_splits)
  from assms ne sp have rl: "rl \<noteq> []"
    by (auto simp: parseHttpRequest_def split: if_splits)
  from assms ne sp rl obtain m fp ver where parts: "split_js '' '' rl = [m, fp, ver]"
    by (auto simp: parseHttpRequest_def split: list.splits)
  let ?qs = "if indexOf CHR ''?'' fp > -1 then drop (nat (indexOf CHR ''?'' fp + 1)) fp else []"
  from assms ne sp rl parts obtain q where
    q: "(if ?qs \<noteq> [] then parse_query_params dec (split_js ''&'' ?qs) [] else Inr []) = Inr q"
    by (auto simp: parseHttpRequest_def Let_def split: sum.splits)
  from assms ne sp rl parts q obtain h i where hl: "headers_loop rest 0 [] = Inr (h, i)"
    by (auto simp: parseHttpRequest_def Let_def split: sum.splits)
  from assms ne sp rl parts q hl have r: "r = \<lparr>method = m,
      path = (if indexOf CHR ''?'' fp > -1 then take (nat (indexOf CHR ''?'' fp)) fp else fp),
      fullPath = fp, query = q, version = ver, headers = h,
      body = join_js CRLF (drop (i + 1) rest)\<rparr>"
    by (simp add: parseHttpRequest_def Let_def)
  have qp: "parse_query_params dec (query_pairs fp) [] = Inr q"
    using q by (simp add: query_pairs_def Let_def split: if_splits)
  show ?thesis
  proof (rule that[of rl rest i])
    show "rawRequest \<noteq> []" by (rule ne)
    show "split_js CRLF rawRequest = rl # rest" by (rule sp)
    show "rl \<noteq> []" by (rule rl)
    show "split_js '' '' rl = [method r, fullPath r, version r]" using parts by (simp add: r)
    show "path r = takeWhile (\<lambda>c. c \<noteq> CHR ''?'') (fullPath r)"
      unfolding r by (simp add: take_indexOf)
    show "parse_query_params dec (query_pairs (fullPath r)) [] = Inr (query r)"
      using qp by (simp add: r)
    show "headers_loop rest 0 [] = Inr (headers r, i)" using hl by (simp add: r)
    show "body r = join_js CRLF (drop (i + 1) rest)" by (simp add: r)
  qed
qed

lemma parseHttpRequest_not_three:
  assumes "split_js CRLF rawRequest = rl # rest" and "length (split_js '' '' rl) \<noteq> 3"
  shows "isl (parseHttpRequest dec rawRequest)"
proof (cases "parseHttpRequest dec rawRequest")
  case (Inl e)
  then show ?thesis by simp
next
  case (Inr r)
  then obtain rl' rest' where "split_js CRLF rawRequest = rl' # rest'"
    and "split_js '' '' rl' = [method r, fullPath r, version r]"
    by (rule parseHttpRequest_Inr)
  with assms show ?thesis by simp
qed

lemma parseHttpRequest_body:
  assumes ok: "parseHttpRequest dec rawRequest = Inr r"
  shows "\<exists>rl rest. split_js CRLF rawRequest = rl # rest \<and>
           body r = join_js CRLF (drop (length (takeWhile (\<lambda>l. l \<noteq> []) rest) + 1) rest)"
proof -
  from ok obtain rl rest where sp: "split_js CRLF rawRequest = rl # rest"
    by (cases "split_js CRLF rawRequest") (auto simp: parseHttpRequest_def split: if_splits)
  from ok sp obtain h i where hl: "headers_loop rest 0 [] = Inr (h, i)"
    and b: "body r = join_js CRLF (drop (i + 1) rest)"
    by (auto simp: parseHttpRequest_def Let_def split: if_splits list.splits sum.splits)
  from headers_loop_index[OF hl] b sp show ?thesis by simp
qed

lemma ex_post_parse: "parseHttpRequest ex_decode ex_post_raw = Inr ex_post_parsed"
  by code_simp

text \<open>
  C7, as the code has it. Parsing succeeds only when the first line is not empty and
  splits at single spaces into exactly three tokens; these become \<open>method\<close>,
  \<open>fullPath\<close> and \<open>version\<close>, and \<open>path\<close> is \<open>fullPath\<close> up to the first \<open>?\<close>. A
  first line with another number of tokens makes parsing fail. Nothing requires a token
  to be non-empty.
\<close>

theorem parseHttpRequest_three_tokens:
  "(parseHttpRequest dec rawRequest = Inr r \<longrightarrow>
      (\<exists>requestLine rest.
          split_js CRLF rawRequest = requestLine # rest \<and> requestLine \<noteq> [] \<and>
          split_js '' '' requestLine = [method r, fullPath r, version r] \<and>
          path r = takeWhile (\<lambda>c. c \<noteq> CHR ''?'') (fullPath r))) \<and>
   (split_js CRLF rawRequest = requestLine' # rest' \<and> length (split_js '' '' requestLine') \<noteq> 3 \<longrightarrow>
      isl (parseHttpRequest dec rawRequest))"
proof (intro conjI impI)
  assume "parseHttpRequest dec rawRequest = Inr r"
  then obtain rl rest where "split_js CRLF rawRequest = rl # rest" and "rl \<noteq> []"
    and "split_js '' '' rl = [method r, fullPath r, version r]"
    and "path r = takeWhile (\<lambda>c. c \<noteq> CHR ''?'') (fullPath r)"
    by (rule parseHttpRequest_Inr)
  then show "\<exists>requestLine rest.
          split_js CRLF rawRequest = requestLine # rest \<and> requestLine \<noteq> [] \<and>
          split_js '' '' requestLine = [method r, fullPath r, version r] \<and>
          path r = takeWhile (\<lambda>c. c \<noteq> CHR ''?'') (fullPath r)"
    by (intro exI[of _ rl] exI[of _ rest] conjI)
next
  assume a: "split_js CRLF rawRequest = requestLine' # rest' \<and> length (split_js '' '' requestLine') \<noteq> 3"
  show "isl (parseHttpRequest dec rawRequest)"
    by (rule parseHttpRequest_not_three[of rawRequest requestLine' rest']) (use a in simp_all)
qed

theorem parseHttpRequest_three_tokens_witness:
  "parseHttpRequest ex_decode ex_post_raw = Inr ex_post_parsed \<and>
   (\<exists>requestLine rest.
      split_js CRLF ex_post_raw = requestLine # rest \<and> requestLine \<noteq> [] \<and>
      split_js '' '' requestLine = [method ex_post_parsed, fullPath ex_post_parsed, version ex_post_parsed] \<and>
      path ex_post_parsed = takeWhile (\<lambda>c. c \<noteq> CHR ''?'') (fullPath ex_post_parsed)) \<and>
   isl (parseHttpRequest ex_decode (''GET /a b HTTP/1.1'' @ CRLF @ CRLF))"
proof -
  have s: "split_js CRLF (''GET /a b HTTP/1.1'' @ CRLF @ CRLF) = ''GET /a b HTTP/1.1'' # [[], []] \<and>
           length (split_js '' '' ''GET /a b HTTP/1.1'') \<noteq> 3"
    by code_simp
  from parseHttpRequest_three_tokens[where dec = ex_decode and rawRequest = ex_post_raw and r = ex_post_parsed]
    ex_post_parse
  have a: "\<exists>requestLine rest.
      split_js CRLF ex_post_raw = requestLine # rest \<and> requestLine \<noteq> [] \<and>
      split_js '' '' requestLine = [method ex_post_parsed, fullPath ex_post_parsed, version ex_post_parsed] \<and>
      path ex_post_parsed = takeWhile (\<lambda>c. c \<noteq> CHR ''?'') (fullPath ex_post_parsed)"
    by blast
  from parseHttpRequest_three_tokens[where dec = ex_decode
      and rawRequest = "''GET /a b HTTP/1.1'' @ CRLF @ CRLF"
      and requestLine' = "''GET /a b HTTP/1.1''" and rest' = "[[], []]"] s
  have b: "isl (parseHttpRequest ex_decode (''GET /a b HTTP/1.1'' @ CRLF @ CRLF))"
    by blast
  from a b ex_post_parse show ?thesis by blast
qed

text \<open>
  C7 as stated fails: two adjacent spaces give an empty token, and the request is
  parsed. With \<open>GET\<close>, two spaces and \<open>HTTP/1.1\<close> the path is empty; a first line of
  two spaces gives an empty method, path and version.
\<close>

theorem parseHttpRequest_empty_tokens:
  "parseHttpRequest ex_decode (''GET  HTTP/1.1'' @ CRLF @ CRLF) =
     Inr \<lparr>method = ''GET'', path = [], fullPath = [], query = [], version = ''HTTP/1.1'',
          headers = [], body = []\<rparr> \<and>
   parseHttpRequest ex_decode (''  '' @ CRLF @ CRLF) =
     Inr \<lparr>method = [], path = [], fullPath = [], query = [], version = [],
          headers = [], body = []\<rparr>"
  by code_simp

text \<open>
  C8. When the lines after the request line contain an empty line, the parsed body is
  the lines after the first empty one, joined again with CR LF; it is the text of the
  request after that blank line, character for character, and it is empty when nothing
  follows the blank line.
\<close>

theorem parseHttpRequest_body_verbatim:
  assumes "parseHttpRequest dec rawRequest = Inr r"
    and "split_js CRLF rawRequest = requestLine # hs @ [] # bs"
    and "[] \<notin> set hs"
  shows "body r = join_js CRLF bs \<and>
         (bs = [] \<longrightarrow> body r = [] \<and> rawRequest = join_js CRLF (requestLine # hs) @ CRLF) \<and>
         (bs \<noteq> [] \<longrightarrow> rawRequest = join_js CRLF (requestLine # hs) @ CRLF @ CRLF @ body r)"
proof -
  from parseHttpRequest_body[OF assms(1)] assms(2)
  have "body r = join_js CRLF (drop (length (takeWhile (\<lambda>l. l \<noteq> []) (hs @ [] # bs)) + 1) (hs @ [] # bs))"
    by auto
  moreover have "takeWhile (\<lambda>l. l \<noteq> []) (hs @ [] # bs) = hs"
    using assms(3) by (induction hs) auto
  ultimately have b: "body r = join_js CRLF bs" by simp
  have "rawRequest = join_js CRLF (split_js CRLF rawRequest)"
    by (simp add: join_split_js)
  also have "\<dots> = join_js CRLF ((requestLine # hs) @ ([] # bs))"
    using assms(2) by simp
  also have "\<dots> = join_js CRLF (requestLine # hs) @ CRLF @ join_js CRLF ([] # bs)"
    by (rule join_js_append) simp_all
  finally have raw: "rawRequest = join_js CRLF (requestLine # hs) @ CRLF @ join_js CRLF ([] # bs)" .
  show ?thesis
  proof (cases bs)
    case Nil
    with b raw show ?thesis by simp
  next
    case (Cons c cs)
    with b raw show ?thesis by simp
  qed
qed

theorem parseHttpRequest_body_verbatim_witness:
  "body ex_post_parsed = join_js CRLF [''first'', [], ''second''] \<and>
   ex_post_raw =
     join_js CRLF [''POST /notes?tag=a&tag=b&draft HTTP/1.1'', ''Host: x'', ''Content-Type: text/plain''] @
     CRLF @ CRLF @ body ex_post_parsed"
proof -
  have s: "split_js CRLF ex_post_raw =
             ''POST /notes?tag=a&tag=b&draft HTTP/1.1'' # [''Host: x'', ''Content-Type: text/plain''] @
             [] # [''first'', [], ''second'']"
    by code_simp
  have n: "[] \<notin> set [''Host: x'', ''Content-Type: text/plain'']" by simp
  note th = parseHttpRequest_body_verbatim[OF ex_post_parse s n]
  have b: "[''first'', [], ''second''] \<noteq> []" by simp
  from th b show ?thesis by blast
qed

lemma map_of_replace_at:
  "map_of (map (\<lambda>e. if fst e = k then (k, v) else e) kvs) x =
     (if x = k \<and> k \<in> fst ` set kvs then Some v else map_of kvs x)"
  by (induction kvs) force+

lemma map_of_replace:
  "k \<in> fst ` set kvs \<Longrightarrow> map_of (map (\<lambda>e. if fst e = k then (k, v) else e) kvs) = (map_of kvs)(k \<mapsto> v)"
  by (rule ext) (simp add: map_of_replace_at)

lemma map_of_insert_fresh:
  "k \<notin> fst ` set kvs \<Longrightarrow> map_of (takeWhile P kvs @ (k, v) # dropWhile P kvs) = (map_of kvs)(k \<mapsto> v)"
proof (induction kvs)
  case Nil
  then show ?case by simp
next
  case (Cons e kvs)
  then show ?case by (cases e) (auto simp: fun_eq_iff)
qed

lemma map_of_snoc_fresh:
  "k \<notin> fst ` set kvs \<Longrightarrow> map_of (kvs @ [(k, v)]) = (map_of kvs)(k \<mapsto> v)"
  by (induction kvs) (auto simp: fun_eq_iff)

lemma map_of_jsobj_set: "map_of (jsobj_set k v kvs) = (map_of kvs)(k \<mapsto> v)"
  unfolding jsobj_set_def Let_def
  using map_of_replace[of k kvs v] map_of_insert_fresh[of k kvs _ v] map_of_snoc_fresh[of k kvs v]
  by (auto simp del: map_of_append)

lemma map_of_query_assign:
  "map_of (query_assign k v q) K =
     (if k = ''__proto__'' then map_of q K else if K = k then Some v else map_of q K)"
  by (simp add: query_assign_def map_of_jsobj_set)

lemma parse_query_params_proto:
  "parse_query_params dec ps q = Inr q' \<Longrightarrow> map_of q' ''__proto__'' = map_of q ''__proto__''"
proof (induction ps arbitrary: q)
  case Nil
  then show ?case by simp
next
  case (Cons p ps)
  from Cons.prems show ?case
    by (auto split: list.splits if_splits sum.splits dest!: Cons.IH simp: map_of_query_assign)
qed

lemma parse_query_params_last:
  assumes "parse_query_params dec ps q = Inr q'" and "K \<noteq> ''__proto__''"
  shows "map_of q' K =
           (case pairs_for dec K ps of
              [] \<Rightarrow> map_of q K
            | x # xs \<Rightarrow> Some (pair_value dec (last (x # xs))))"
  using assms(1)
proof (induction ps arbitrary: q)
  case Nil
  then show ?case by (simp add: pairs_for_def)
next
  case (Cons p ps)
  obtain key vs where sp: "split_js ''='' p = key # vs"
    by (cases "split_js ''='' p") (auto simp: split_js_nonempty)
  show ?case
  proof (cases "key = []")
    case True
    with Cons.prems sp have "parse_query_params dec ps q = Inr q'" by simp
    from Cons.IH[OF this] True sp show ?thesis by (simp add: pairs_for_def pair_key_def)
  next
    case False
    with Cons.prems sp obtain k v' where k: "dec key = Inr k"
      and v': "(case vs of [] \<Rightarrow> Inr [] | v # _ \<Rightarrow> if v \<noteq> [] then dec v else Inr []) = Inr v'"
      and rest: "parse_query_params dec ps (query_assign k v' q) = Inr q'"
      by (auto split: sum.splits)
    have pv: "pair_value dec p = v'"
      using sp v' by (auto simp: pair_value_def split: list.splits if_splits sum.splits)
    note ih = Cons.IH[OF rest]
    show ?thesis
    proof (cases "k = K")
      case True
      then have f: "pairs_for dec K (p # ps) = p # pairs_for dec K ps"
        using False sp k by (simp add: pairs_for_def pair_key_def)
      show ?thesis
        using ih True assms(2) pv unfolding f
        by (auto simp: map_of_query_assign split: list.splits)
    next
      case neq: False
      then have f: "pairs_for dec K (p # ps) = pairs_for dec K ps"
        using False sp k by (simp add: pairs_for_def pair_key_def)
      show ?thesis
        using ih neq unfolding f
        by (auto simp: map_of_query_assign split: list.splits)
    qed
  qed
qed

lemma parseHttpRequest_query_last_wins:
  assumes "parseHttpRequest dec rawRequest = Inr r" and "K \<noteq> ''__proto__''"
  shows "map_of (query r) K =
           (case pairs_for dec K (query_pairs (fullPath r)) of
              [] \<Rightarrow> None
            | x # xs \<Rightarrow> Some (pair_value dec (last (x # xs))))"
proof -
  from assms(1) have "parse_query_params dec (query_pairs (fullPath r)) [] = Inr (query r)"
    by (rule parseHttpRequest_Inr)
  from parse_query_params_last[OF this assms(2)] show ?thesis by (simp split: list.splits)
qed

lemma parseHttpRequest_query_no_proto:
  assumes "parseHttpRequest dec rawRequest = Inr r"
  shows "map_of (query r) ''__proto__'' = None"
proof -
  from assms(1) have "parse_query_params dec (query_pairs (fullPath r)) [] = Inr (query r)"
    by (rule parseHttpRequest_Inr)
  from parse_query_params_proto[OF this] show ?thesis by simp
qed

text \<open>
  C9 at the key \<open>__proto__\<close>: the query string names the key twice, and the parsed
  query has no entry for it. For every other key the last pair decides
  (\<open>parseHttpRequest_query_last_wins\<close>).
\<close>

theorem parseHttpRequest_query_proto_dropped:
  "parseHttpRequest ex_decode ex_proto_raw =
     Inr \<lparr>method = ''GET'', path = ''/'', fullPath = ''/?__proto__=a&__proto__=b'', query = [],
          version = ''HTTP/1.1'', headers = [], body = []\<rparr> \<and>
   pairs_for ex_decode ''__proto__'' (query_pairs ''/?__proto__=a&__proto__=b'') =
     [''__proto__=a'', ''__proto__=b'']"
  by code_simp

section \<open>Properties of the serialiser and of the request pipeline\<close>

lemma format_503_busy:
  "formatHttpResponse (createErrorResponse 503 ''Server busy, please try again later'' None) =
     Inr (error_wire ''503'' ''Service Unavailable'' ''79'' ''Server busy, please try again later'')"
  by code_simp

lemma format_500_internal:
  "formatHttpResponse (createErrorResponse 500 ''Internal server error'' None) =
     Inr (error_wire ''500'' ''Internal Server Error'' ''67'' ''Internal server error'')"
  by code_simp

lemma format_504_timeout:
  "formatHttpResponse (createErrorResponse 504 ''Gateway timeout'' None) =
     Inr (error_wire ''504'' ''Gateway Timeout'' ''55'' ''Gateway timeout'')"
  by code_simp

lemma includes_invalid_response:
  "\<not> includes_js ''Invalid response: missing or incomplete preamble'' ''Invalid request''"
  "\<not> includes_js ''Invalid response: not an object'' ''Invalid request''"
  by code_simp+

lemma ex_raw_parse: "parseHttpRequest ex_decode ex_raw = Inr ex_parsed"
  by code_simp

lemma ex_prompt_size:
  "length (buildPrompt (requestId (ex_env ab)) (timestamp (ex_env ab)) ex_parsed) = 401"
  by (cases ab; code_simp)

lemma ex_prompt_length:
  "length (buildPrompt (requestId (ex_env ab)) (timestamp (ex_env ab)) ex_parsed) \<le> MAX_PROMPT_SIZE"
  by (simp add: ex_prompt_size MAX_PROMPT_SIZE_def)

lemma ex_consume:
  "consume_stream (messages (ex_run ab)) [] 0 = Inr (''Here is the response: (envelope)'', 32)"
  by (simp add: ex_run_def MAX_RESPONSE_SIZE_def)

lemma ex_extract:
  "extractJsonResponse (jsonCandidates (ex_env ab)) ''Here is the response: (envelope)'' = ex_bad_envelope"
  by (simp add: extractJsonResponse_def ex_env_def ex_bad_envelope_def)

lemma ex_bad_status: "\<not> truthy (get_prop (get_prop ex_bad_envelope ''preamble'') ''status'')"
  by (simp add: ex_bad_envelope_def)

lemma ex_bad_format:
  "formatHttpResponse ex_bad_envelope =
     Inl (JsError ''Error'' ''Invalid response: missing or incomplete preamble'')"
  by (simp add: formatHttpResponse_def ex_bad_envelope_def)

text \<open>
  C5. At or above \<open>MAX_CONCURRENT_REQUESTS\<close>, \<open>processRequest\<close> answers with the 503
  envelope and leaves the state as it was: the counter is unchanged and no call of the
  delegate is added.
\<close>

theorem processRequest_at_capacity:
  "concurrentRequests st \<ge> MAX_CONCURRENT_REQUESTS \<Longrightarrow>
   processRequest env rawRequest st =
     (Inr (error_wire ''503'' ''Service Unavailable'' ''79'' ''Server busy, please try again later''), st)"
  by (simp add: processRequest_def format_503_busy)

theorem processRequest_at_capacity_witness:
  "concurrentRequests ex_full_state \<ge> MAX_CONCURRENT_REQUESTS \<and>
   processRequest (ex_env False) ex_raw ex_full_state =
     (Inr (error_wire ''503'' ''Service Unavailable'' ''79'' ''Server busy, please try again later''),
      ex_full_state)"
proof -
  have h: "concurrentRequests ex_full_state \<ge> MAX_CONCURRENT_REQUESTS"
    by (simp add: ex_full_state_def MAX_CONCURRENT_REQUESTS_def)
  from processRequest_at_capacity[OF h, of "ex_env False" ex_raw] h show ?thesis by simp
qed

lemma processRequest_try_state:
  "\<exists>calls. snd (processRequest_try env rawRequest s) = s\<lparr>delegateCalls := delegateCalls s @ calls\<rparr> \<and>
           (\<forall>call\<in>set calls. snd call = concurrentRequests s)"
proof (cases "parseHttpRequest (decodeURIComponent env) rawRequest")
  case (Inl e)
  then have "snd (processRequest_try env rawRequest s) = s\<lparr>delegateCalls := delegateCalls s @ []\<rparr>"
    by (simp add: processRequest_try_def)
  then show ?thesis by (intro exI[of _ "[]"]) simp
next
  case (Inr parsed)
  let ?prompt = "buildPrompt (requestId env) (timestamp env) parsed"
  show ?thesis
  proof (cases "length ?prompt > MAX_PROMPT_SIZE")
    case True
    with Inr have "snd (processRequest_try env rawRequest s) = s\<lparr>delegateCalls := delegateCalls s @ []\<rparr>"
      by (simp add: processRequest_try_def)
    then show ?thesis by (intro exI[of _ "[]"]) simp
  next
    case False
    with Inr have "snd (processRequest_try env rawRequest s) =
        s\<lparr>delegateCalls := delegateCalls s @ [(?prompt, concurrentRequests s)]\<rparr>"
      by (simp add: processRequest_try_def Let_def)
    then show ?thesis by (intro exI[of _ "[(?prompt, concurrentRequests s)]"]) simp
  qed
qed

lemma processRequest_try_count:
  "concurrentRequests (snd (processRequest_try env rawRequest s)) = concurrentRequests s \<and>
   counterWrites (snd (processRequest_try env rawRequest s)) = counterWrites s"
proof -
  obtain calls where "snd (processRequest_try env rawRequest s) = s\<lparr>delegateCalls := delegateCalls s @ calls\<rparr>"
    using processRequest_try_state by blast
  then show ?thesis by simp
qed

lemma processRequest_admitted:
  "concurrentRequests st < MAX_CONCURRENT_REQUESTS \<Longrightarrow>
   processRequest env rawRequest st =
     ((case fst (processRequest_try env rawRequest
                   (write_concurrentRequests (concurrentRequests st + 1) st)) of
         Inl error \<Rightarrow> processRequest_catch error
       | Inr w \<Rightarrow> Inr w),
      write_concurrentRequests
        (concurrentRequests
           (snd (processRequest_try env rawRequest
                   (write_concurrentRequests (concurrentRequests st + 1) st))) - 1)
        (snd (processRequest_try env rawRequest
                (write_concurrentRequests (concurrentRequests st + 1) st))))"
  by (simp add: processRequest_def Let_def case_prod_beta)

lemma processRequest_state:
  "\<exists>calls. snd (processRequest env rawRequest st) =
      (if concurrentRequests st < MAX_CONCURRENT_REQUESTS
       then st\<lparr>counterWrites := counterWrites st @ [concurrentRequests st + 1, concurrentRequests st],
               delegateCalls := delegateCalls st @ calls\<rparr>
       else st) \<and>
      (\<forall>call\<in>set calls. snd call = concurrentRequests st + 1 \<and> snd call \<le> MAX_CONCURRENT_REQUESTS)"
proof (cases "concurrentRequests st < MAX_CONCURRENT_REQUESTS")
  case False
  then have "snd (processRequest env rawRequest st) = st" by (simp add: processRequest_def)
  with False show ?thesis by (intro exI[of _ "[]"]) simp
next
  case True
  let ?st1 = "write_concurrentRequests (concurrentRequests st + 1) st"
  obtain calls where c: "snd (processRequest_try env rawRequest ?st1) =
      ?st1\<lparr>delegateCalls := delegateCalls ?st1 @ calls\<rparr>"
    and v: "\<forall>call\<in>set calls. snd call = concurrentRequests ?st1"
    using processRequest_try_state[of env rawRequest ?st1] by blast
  have "snd (processRequest env rawRequest st) =
      st\<lparr>counterWrites := counterWrites st @ [concurrentRequests st + 1, concurrentRequests st],
         delegateCalls := delegateCalls st @ calls\<rparr>"
    by (simp add: processRequest_admitted[OF True] c) (simp add: write_concurrentRequests_def)
  moreover have "\<forall>call\<in>set calls. snd call = concurrentRequests st + 1 \<and> snd call \<le> MAX_CONCURRENT_REQUESTS"
    using v True by (simp add: write_concurrentRequests_def)
  ultimately show ?thesis using True by (intro exI[of _ calls]) simp
qed

lemma processRequest_count:
  "concurrentRequests (snd (processRequest env rawRequest st)) = concurrentRequests st"
  using processRequest_state[of env rawRequest st] by (auto split: if_splits)

lemma processRequests_snd:
  "snd (processRequests ((env, rawRequest) # rs) st) =
     snd (processRequests rs (snd (processRequest env rawRequest st)))"
  by (simp add: case_prod_beta)

lemma processRequests_state:
  "\<exists>calls. snd (processRequests rs st) =
      (if concurrentRequests st < MAX_CONCURRENT_REQUESTS
       then st\<lparr>counterWrites := counterWrites st @
                  concat (replicate (length rs) [concurrentRequests st + 1, concurrentRequests st]),
               delegateCalls := delegateCalls st @ calls\<rparr>
       else st) \<and>
      (\<forall>call\<in>set calls. snd call = concurrentRequests st + 1 \<and> snd call \<le> MAX_CONCURRENT_REQUESTS)"
proof (induction rs arbitrary: st)
  case Nil
  show ?case by (intro exI[of _ "[]"]) simp
next
  case (Cons r rs)
  obtain env raw where r: "r = (env, raw)" by (cases r)
  let ?st' = "snd (processRequest env raw st)"
  obtain c1 where s1: "?st' =
      (if concurrentRequests st < MAX_CONCURRENT_REQUESTS
       then st\<lparr>counterWrites := counterWrites st @ [concurrentRequests st + 1, concurrentRequests st],
               delegateCalls := delegateCalls st @ c1\<rparr>
       else st)"
    and v1: "\<forall>call\<in>set c1. snd call = concurrentRequests st + 1 \<and> snd call \<le> MAX_CONCURRENT_REQUESTS"
    using processRequest_state[of env raw st] by blast
  have k: "concurrentRequests ?st' = concurrentRequests st" by (rule processRequest_count)
  obtain c2 where s2: "snd (processRequests rs ?st') =
      (if concurrentRequests ?st' < MAX_CONCURRENT_REQUESTS
       then ?st'\<lparr>counterWrites := counterWrites ?st' @
                  concat (replicate (length rs) [concurrentRequests ?st' + 1, concurrentRequests ?st']),
               delegateCalls := delegateCalls ?st' @ c2\<rparr>
       else ?st')"
    and v2: "\<forall>call\<in>set c2. snd call = concurrentRequests ?st' + 1 \<and> snd call \<le> MAX_CONCURRENT_REQUESTS"
    using Cons.IH[of ?st'] by blast
  show ?case
  proof (cases "concurrentRequests st < MAX_CONCURRENT_REQUESTS")
    case False
    with s1 have "?st' = st" by simp
    with s2 False have "snd (processRequests (r # rs) st) = st"
      by (simp add: r processRequests_snd del: processRequests.simps)
    with False show ?thesis by (intro exI[of _ "[]"]) simp
  next
    case True
    from s1 True have e1: "?st' = st\<lparr>counterWrites := counterWrites st @ [concurrentRequests st + 1, concurrentRequests st],
               delegateCalls := delegateCalls st @ c1\<rparr>" by simp
    have "snd (processRequests (r # rs) st) = snd (processRequests rs ?st')"
      by (simp add: r processRequests_snd del: processRequests.simps)
    also have "\<dots> = ?st'\<lparr>counterWrites := counterWrites ?st' @
                  concat (replicate (length rs) [concurrentRequests st + 1, concurrentRequests st]),
               delegateCalls := delegateCalls ?st' @ c2\<rparr>"
      using s2 True k by simp
    also have "\<dots> = st\<lparr>counterWrites := counterWrites st @
                  concat (replicate (length (r # rs)) [concurrentRequests st + 1, concurrentRequests st]),
               delegateCalls := delegateCalls st @ (c1 @ c2)\<rparr>"
      by (subst (1 2 3) e1) simp
    finally have "snd (processRequests (r # rs) st) = st\<lparr>counterWrites := counterWrites st @
                  concat (replicate (length (r # rs)) [concurrentRequests st + 1, concurrentRequests st]),
               delegateCalls := delegateCalls st @ (c1 @ c2)\<rparr>" .
    moreover have "\<forall>call\<in>set (c1 @ c2). snd call = concurrentRequests st + 1 \<and> snd call \<le> MAX_CONCURRENT_REQUESTS"
      using v1 v2 k by auto
    ultimately show ?thesis using True by (intro exI[of _ "c1 @ c2"]) simp
  qed
qed

text \<open>
  C6. An admitted request writes the counter exactly twice: first the value it found
  plus one, then the value it found again; the \<open>try\<close> block in between writes nothing
  to it, whatever the request and whatever the delegate does, and every start of the
  delegate sees the counter at one more than the value found. A request at the ceiling
  writes nothing. So the counter is back at its value after every request, no value
  ever written exceeds \<open>MAX_CONCURRENT_REQUESTS\<close>, and the same holds of any sequence of
  requests served one after the other: each admitted request adds one such pair of
  writes.
\<close>

theorem processRequest_releases:
  "(\<exists>calls.
      snd (processRequest env rawRequest st) =
        (if concurrentRequests st < MAX_CONCURRENT_REQUESTS
         then st\<lparr>counterWrites := counterWrites st @ [concurrentRequests st + 1, concurrentRequests st],
                 delegateCalls := delegateCalls st @ calls\<rparr>
         else st) \<and>
      (\<forall>call\<in>set calls. snd call = concurrentRequests st + 1 \<and> snd call \<le> MAX_CONCURRENT_REQUESTS)) \<and>
   concurrentRequests (snd (processRequest env rawRequest st)) = concurrentRequests st \<and>
   (\<forall>v\<in>set (drop (length (counterWrites st)) (counterWrites (snd (processRequest env rawRequest st)))).
      v \<le> MAX_CONCURRENT_REQUESTS) \<and>
   concurrentRequests (snd (processRequest_try env rawRequest s)) = concurrentRequests s \<and>
   counterWrites (snd (processRequest_try env rawRequest s)) = counterWrites s \<and>
   (\<exists>calls.
      snd (processRequests rs st) =
        (if concurrentRequests st < MAX_CONCURRENT_REQUESTS
         then st\<lparr>counterWrites := counterWrites st @
                    concat (replicate (length rs) [concurrentRequests st + 1, concurrentRequests st]),
                 delegateCalls := delegateCalls st @ calls\<rparr>
         else st) \<and>
      (\<forall>call\<in>set calls. snd call = concurrentRequests st + 1 \<and> snd call \<le> MAX_CONCURRENT_REQUESTS)) \<and>
   (\<forall>v\<in>set (drop (length (counterWrites st)) (counterWrites (snd (processRequests rs st)))).
      v \<le> MAX_CONCURRENT_REQUESTS)"
proof (intro conjI)
  show "\<exists>calls.
      snd (processRequest env rawRequest st) =
        (if concurrentRequests st < MAX_CONCURRENT_REQUESTS
         then st\<lparr>counterWrites := counterWrites st @ [concurrentRequests st + 1, concurrentRequests st],
                 delegateCalls := delegateCalls st @ calls\<rparr>
         else st) \<and>
      (\<forall>call\<in>set calls. snd call = concurrentRequests st + 1 \<and> snd call \<le> MAX_CONCURRENT_REQUESTS)"
    by (rule processRequest_state)
  show "concurrentRequests (snd (processRequest env rawRequest st)) = concurrentRequests st"
    by (rule processRequest_count)
  show "\<forall>v\<in>set (drop (length (counterWrites st)) (counterWrites (snd (processRequest env rawRequest st)))).
      v \<le> MAX_CONCURRENT_REQUESTS"
    using processRequest_state[of env rawRequest st] by (auto split: if_splits)
  show "concurrentRequests (snd (processRequest_try env rawRequest s)) = concurrentRequests s"
    by (simp add: processRequest_try_count)
  show "counterWrites (snd (processRequest_try env rawRequest s)) = counterWrites s"
    by (simp add: processRequest_try_count)
  show "\<exists>calls.
      snd (processRequests rs st) =
        (if concurrentRequests st < MAX_CONCURRENT_REQUESTS
         then st\<lparr>counterWrites := counterWrites st @
                    concat (replicate (length rs) [concurrentRequests st + 1, concurrentRequests st]),
                 delegateCalls := delegateCalls st @ calls\<rparr>
         else st) \<and>
      (\<forall>call\<in>set calls. snd call = concurrentRequests st + 1 \<and> snd call \<le> MAX_CONCURRENT_REQUESTS)"
    by (rule processRequests_state)
  show "\<forall>v\<in>set (drop (length (counterWrites st)) (counterWrites (snd (processRequests rs st)))).
      v \<le> MAX_CONCURRENT_REQUESTS"
    using processRequests_state[of rs st] by (auto split: if_splits)
qed

lemma ex_delegate_calls:
  "delegateCalls (snd (processRequest (ex_env False) ex_raw ex_state)) =
     [(buildPrompt (requestId (ex_env False)) (timestamp (ex_env False)) ex_parsed, 1)]"
proof -
  have c: "concurrentRequests ex_state < MAX_CONCURRENT_REQUESTS"
    by (simp add: ex_state_def MAX_CONCURRENT_REQUESTS_def)
  have p: "parseHttpRequest (decodeURIComponent (ex_env False)) ex_raw = Inr ex_parsed"
    using ex_raw_parse by (simp add: ex_env_def)
  have l: "\<not> length (buildPrompt (requestId (ex_env False)) (timestamp (ex_env False)) ex_parsed) > MAX_PROMPT_SIZE"
    using ex_prompt_length[of False] by simp
  have q: "snd (processRequest_try (ex_env False) ex_raw s) =
          s\<lparr>delegateCalls := delegateCalls s @
             [(buildPrompt (requestId (ex_env False)) (timestamp (ex_env False)) ex_parsed,
               concurrentRequests s)]\<rparr>" for s
    unfolding processRequest_try_def p using l by (simp add: Let_def)
  show ?thesis
    unfolding processRequest_admitted[OF c] q
    by (simp add: write_concurrentRequests_def ex_state_def)
qed

theorem processRequest_releases_witness:
  "concurrentRequests ex_state < MAX_CONCURRENT_REQUESTS \<and>
   counterWrites (snd (processRequest (ex_env False) ex_raw ex_state)) = [1, 0] \<and>
   concurrentRequests (snd (processRequest (ex_env False) ex_raw ex_state)) = 0 \<and>
   map snd (delegateCalls (snd (processRequest (ex_env False) ex_raw ex_state))) = [1] \<and>
   counterWrites
     (snd (processRequests [(ex_env False, ex_raw), (ex_env True, []), (ex_env True, ex_raw)] ex_state)) =
     [1, 0, 1, 0, 1, 0] \<and>
   counterWrites (snd (processRequest (ex_env False) ex_raw ex_full_state)) = []"
proof -
  have h: "concurrentRequests ex_state < MAX_CONCURRENT_REQUESTS"
    by (simp add: ex_state_def MAX_CONCURRENT_REQUESTS_def)
  have f: "\<not> concurrentRequests ex_full_state < MAX_CONCURRENT_REQUESTS"
    by (simp add: ex_full_state_def MAX_CONCURRENT_REQUESTS_def)
  have z: "concurrentRequests ex_state = 0" "counterWrites ex_state = []"
    "counterWrites ex_full_state = []"
    by (simp_all add: ex_state_def ex_full_state_def)
  let ?rs = "[(ex_env False, ex_raw), (ex_env True, []), (ex_env True, ex_raw)]"
  note t = processRequest_releases[where st = ex_state and env = "ex_env False" and rawRequest = ex_raw
      and rs = ?rs and s = ex_state]
  note u = processRequest_releases[where st = ex_full_state and env = "ex_env False"
      and rawRequest = ex_raw and rs = "[]" and s = ex_state]
  from t[THEN conjunct1] obtain c1 where
    "snd (processRequest (ex_env False) ex_raw ex_state) =
       (if concurrentRequests ex_state < MAX_CONCURRENT_REQUESTS
        then ex_state\<lparr>counterWrites := counterWrites ex_state @
                         [concurrentRequests ex_state + 1, concurrentRequests ex_state],
                       delegateCalls := delegateCalls ex_state @ c1\<rparr>
        else ex_state)"
    by (elim exE conjE)
  then have a: "counterWrites (snd (processRequest (ex_env False) ex_raw ex_state)) = [1, 0]"
    using h by (simp add: z)
  from t[THEN conjunct2, THEN conjunct1]
  have b: "concurrentRequests (snd (processRequest (ex_env False) ex_raw ex_state)) = 0"
    by (simp add: z)
  from t[THEN conjunct2, THEN conjunct2, THEN conjunct2, THEN conjunct2, THEN conjunct2, THEN conjunct1]
  obtain c3 where
    "snd (processRequests ?rs ex_state) =
       (if concurrentRequests ex_state < MAX_CONCURRENT_REQUESTS
        then ex_state\<lparr>counterWrites := counterWrites ex_state @
                         concat (replicate (length ?rs) [concurrentRequests ex_state + 1, concurrentRequests ex_state]),
                       delegateCalls := delegateCalls ex_state @ c3\<rparr>
        else ex_state)"
    by (elim exE conjE)
  then have c: "counterWrites (snd (processRequests ?rs ex_state)) = [1, 0, 1, 0, 1, 0]"
    using h by (simp add: z del: processRequests.simps)
  from u[THEN conjunct1] obtain c4 where
    "snd (processRequest (ex_env False) ex_raw ex_full_state) =
       (if concurrentRequests ex_full_state < MAX_CONCURRENT_REQUESTS
        then ex_full_state\<lparr>counterWrites := counterWrites ex_full_state @
                         [concurrentRequests ex_full_state + 1, concurrentRequests ex_full_state],
                       delegateCalls := delegateCalls ex_full_state @ c4\<rparr>
        else ex_full_state)"
    by (elim exE conjE)
  then have d: "counterWrites (snd (processRequest (ex_env False) ex_raw ex_full_state)) = []"
    using f by (simp add: z)
  from h a b c d ex_delegate_calls show ?thesis by simp
qed

lemma formatHttpResponse_incomplete:
  assumes "k \<in> {''version'', ''status'', ''reason''}"
    and "\<not> truthy (get_prop (get_prop j ''preamble'') k)"
  shows "formatHttpResponse j =
           Inl (JsError ''Error''
                  (if \<not> truthy j \<or> \<not> typeof_object j then ''Invalid response: not an object''
                   else ''Invalid response: missing or incomplete preamble''))"
  using assms by (auto simp: formatHttpResponse_def Let_def)

lemma invalid_envelope_reply:
  assumes "k \<in> {''version'', ''status'', ''reason''}"
    and "\<not> truthy (get_prop (get_prop j ''preamble'') k)"
    and "concurrentRequests st < MAX_CONCURRENT_REQUESTS"
    and "parseHttpRequest (decodeURIComponent env) rawRequest = Inr parsed"
    and "length (buildPrompt (requestId env) (timestamp env) parsed) \<le> MAX_PROMPT_SIZE"
    and "run = runQuery env (buildPrompt (requestId env) (timestamp env) parsed) (systemPrompt env)"
    and "consume_stream (messages run) [] 0 = Inr (fullResponse, responseSize)"
    and "ending run = Completes"
    and "extractJsonResponse (jsonCandidates env) fullResponse = j"
  shows "fst (processRequest env rawRequest st) =
           Inr (if aborted run
                then error_wire ''504'' ''Gateway Timeout'' ''55'' ''Gateway timeout''
                else error_wire ''500'' ''Internal Server Error'' ''67'' ''Internal server error'')"
proof -
  let ?e = "JsError ''Error''
                  (if \<not> truthy j \<or> \<not> typeof_object j then ''Invalid response: not an object''
                   else ''Invalid response: missing or incomplete preamble'')"
  have f: "formatHttpResponse j = Inl ?e"
    by (rule formatHttpResponse_incomplete[OF assms(1,2)])
  have t: "delegate_try env run = Inl ?e"
    using assms(7,8,9) f by (simp add: delegate_try_def)
  have n: "err_name ?e \<noteq> ''AbortError''" by simp
  have d: "delegate env run =
             (if aborted run then Inr (error_wire ''504'' ''Gateway Timeout'' ''55'' ''Gateway timeout'')
              else Inl ?e)"
    unfolding delegate_def t using n by (simp add: format_504_timeout)
  have c: "processRequest_catch ?e =
             Inr (error_wire ''500'' ''Internal Server Error'' ''67'' ''Internal server error'')"
    using includes_invalid_response by (simp add: processRequest_catch_def format_500_internal)
  have "fst (processRequest_try env rawRequest s) = delegate env run" for s
    using assms(4,5,6) by (simp add: processRequest_try_def Let_def)
  then have "fst (processRequest env rawRequest st) =
               (case delegate env run of Inl error \<Rightarrow> processRequest_catch error | Inr w \<Rightarrow> Inr w)"
    using assms(3) by (simp add: processRequest_admitted)
  with d c show ?thesis by simp
qed

text \<open>
  C2, as the code has it. An envelope whose preamble lacks \<open>version\<close>, \<open>status\<close> or
  \<open>reason\<close> (or holds a falsy value there) is rejected by \<open>formatHttpResponse\<close>. When
  the delegate's answer is such an envelope, the reply of \<open>processRequest\<close> is the
  generic 500 envelope, unless the abort signal of the delegation is set: then it is the
  generic 504 envelope.
\<close>

theorem processRequest_invalid_envelope:
  assumes "k \<in> {''version'', ''status'', ''reason''}"
    and "\<not> truthy (get_prop (get_prop j ''preamble'') k)"
  shows "(\<exists>e. formatHttpResponse j = Inl e) \<and>
         (concurrentRequests st < MAX_CONCURRENT_REQUESTS \<and>
          parseHttpRequest (decodeURIComponent env) rawRequest = Inr parsed \<and>
          length (buildPrompt (requestId env) (timestamp env) parsed) \<le> MAX_PROMPT_SIZE \<and>
          run = runQuery env (buildPrompt (requestId env) (timestamp env) parsed) (systemPrompt env) \<and>
          consume_stream (messages run) [] 0 = Inr (fullResponse, responseSize) \<and>
          ending run = Completes \<and>
          extractJsonResponse (jsonCandidates env) fullResponse = j
          \<longrightarrow>
          fst (processRequest env rawRequest st) =
            Inr (if aborted run
                 then error_wire ''504'' ''Gateway Timeout'' ''55'' ''Gateway timeout''
                 else error_wire ''500'' ''Internal Server Error'' ''67'' ''Internal server error''))"
proof (intro conjI impI)
  show "\<exists>e. formatHttpResponse j = Inl e"
    using formatHttpResponse_incomplete[OF assms] by blast
next
  assume a: "concurrentRequests st < MAX_CONCURRENT_REQUESTS \<and>
          parseHttpRequest (decodeURIComponent env) rawRequest = Inr parsed \<and>
          length (buildPrompt (requestId env) (timestamp env) parsed) \<le> MAX_PROMPT_SIZE \<and>
          run = runQuery env (buildPrompt (requestId env) (timestamp env) parsed) (systemPrompt env) \<and>
          consume_stream (messages run) [] 0 = Inr (fullResponse, responseSize) \<and>
          ending run = Completes \<and>
          extractJsonResponse (jsonCandidates env) fullResponse = j"
  show "fst (processRequest env rawRequest st) =
            Inr (if aborted run
                 then error_wire ''504'' ''Gateway Timeout'' ''55'' ''Gateway timeout''
                 else error_wire ''500'' ''Internal Server Error'' ''67'' ''Internal server error'')"
    using a by (elim conjE) (rule invalid_envelope_reply[OF assms], assumption+)
qed

theorem processRequest_invalid_envelope_witness:
  "(\<exists>e. formatHttpResponse ex_bad_envelope = Inl e) \<and>
   fst (processRequest (ex_env False) ex_raw ex_state) =
     Inr (error_wire ''500'' ''Internal Server Error'' ''67'' ''Internal server error'')"
proof -
  have k: "''status'' \<in> {''version'', ''status'', ''reason''}" by simp
  have c: "concurrentRequests ex_state < MAX_CONCURRENT_REQUESTS"
    by (simp add: ex_state_def MAX_CONCURRENT_REQUESTS_def)
  have p: "parseHttpRequest (decodeURIComponent (ex_env False)) ex_raw =
     Inr ex_parsed"
    using ex_raw_parse by (simp add: ex_env_def)
  have l: "length (buildPrompt (requestId (ex_env False)) (timestamp (ex_env False)) ex_parsed) \<le> MAX_PROMPT_SIZE"
    by (rule ex_prompt_length)
  have r: "ex_run False = runQuery (ex_env False) (buildPrompt (requestId (ex_env False)) (timestamp (ex_env False)) ex_parsed) (systemPrompt (ex_env False))"
    by (simp add: ex_env_def)
  have e: "ending (ex_run False) = Completes" by (simp add: ex_run_def)
  have a: "\<not> aborted (ex_run False)" by (simp add: ex_run_def)
  from processRequest_invalid_envelope[OF k ex_bad_status, where st = ex_state and env = "ex_env False"
      and rawRequest = ex_raw and parsed = ex_parsed and run = "ex_run False"
      and fullResponse = "''Here is the response: (envelope)''" and responseSize = 32]
    c p l r ex_consume[of False] e ex_extract[of False] a
  show ?thesis by simp
qed

text \<open>
  C2 as stated fails when the abort signal is set by the time the stream completes: the
  inner \<open>catch\<close> answers with the 504 envelope, not the 500 envelope.
\<close>

theorem processRequest_invalid_envelope_aborted:
  "formatHttpResponse ex_bad_envelope =
     Inl (JsError ''Error'' ''Invalid response: missing or incomplete preamble'') \<and>
   get_prop (get_prop ex_bad_envelope ''preamble'') ''status'' = JUndefined \<and>
   consume_stream (messages (ex_run True)) [] 0 = Inr (''Here is the response: (envelope)'', 32) \<and>
   extractJsonResponse (jsonCandidates (ex_env True)) ''Here is the response: (envelope)'' = ex_bad_envelope \<and>
   fst (processRequest (ex_env True) ex_raw ex_state) =
     Inr (error_wire ''504'' ''Gateway Timeout'' ''55'' ''Gateway timeout'') \<and>
   fst (processRequest (ex_env True) ex_raw ex_state) \<noteq>
     Inr (error_wire ''500'' ''Internal Server Error'' ''67'' ''Internal server error'')"
proof -
  have k: "''status'' \<in> {''version'', ''status'', ''reason''}" by simp
  have c: "concurrentRequests ex_state < MAX_CONCURRENT_REQUESTS"
    by (simp add: ex_state_def MAX_CONCURRENT_REQUESTS_def)
  have p: "parseHttpRequest (decodeURIComponent (ex_env True)) ex_raw = Inr ex_parsed"
    using ex_raw_parse by (simp add: ex_env_def)
  have r: "ex_run True =
      runQuery (ex_env True) (buildPrompt (requestId (ex_env True)) (timestamp (ex_env True)) ex_parsed)
        (systemPrompt (ex_env True))"
    by (simp add: ex_env_def)
  have e: "ending (ex_run True) = Completes" and a: "aborted (ex_run True)"
    by (simp_all add: ex_run_def)
  have u: "get_prop (get_prop ex_bad_envelope ''preamble'') ''status'' = JUndefined"
    by (simp add: ex_bad_envelope_def)
  have w: "fst (processRequest (ex_env True) ex_raw ex_state) =
     Inr (error_wire ''504'' ''Gateway Timeout'' ''55'' ''Gateway timeout'')"
    using invalid_envelope_reply[OF k ex_bad_status c p ex_prompt_length r ex_consume e ex_extract] a
    by simp
  have d: "error_wire ''504'' ''Gateway Timeout'' ''55'' ''Gateway timeout'' \<noteq>
           error_wire ''500'' ''Internal Server Error'' ''67'' ''Internal server error''"
    by (simp add: error_wire_def)
  from ex_bad_format u ex_consume ex_extract w d show ?thesis by simp
qed

section \<open>Properties of the sandbox path validator\<close>

text \<open>
  C1 at a sibling directory whose name extends the name of the root: with the root
  \<open>/srv/files\<close>, the path \<open>../files-evil/x\<close> resolves to \<open>/srv/files-evil/x\<close>, which is
  outside the root, and the validator returns it, for an existing file and for a file
  yet to be written.
\<close>

theorem validateAndResolvePath_sibling_prefix:
  "validateAndResolvePath ''/'' ''/srv/files'' plain_fs ''../files-evil/x'' = Inr ''/srv/files-evil/x'' \<and>
   path_normalize (path_resolve ''/'' [SAFE_BASE_DIR_ORIGINAL ''/srv/files'', ''../files-evil/x'']) =
     ''/srv/files-evil/x'' \<and>
   \<not> inside_root ''/srv/files'' ''/srv/files-evil/x'' \<and>
   validateAndResolvePath ''/'' ''/srv/files'' new_file_fs ''../files-evil/new.txt'' =
     Inr ''/srv/files-evil/new.txt'' \<and>
   \<not> inside_root ''/srv/files'' ''/srv/files-evil/new.txt''"
  by code_simp

lemma validateAndResolvePath_prefix:
  "validateAndResolvePath cwd root realpath filepath = Inr p \<Longrightarrow>
   startsWith (toLowerCase (path_normalize (path_resolve cwd [SAFE_BASE_DIR_ORIGINAL root, filepath])))
     (SAFE_BASE_DIR root) \<and>
   startsWith (toLowerCase p) (SAFE_BASE_DIR root) \<and>
   \<not> isAbsolute filepath \<and> CHR 0x00 \<notin> set filepath"
  by (auto simp: validateAndResolvePath_def Let_def split: if_splits fs_result.splits)

section \<open>Properties of the statement execution tool\<close>

lemma payload_database_error:
  "tool_payload (JObj [(''success'', JBool False), (''error'', JStr ''Database error'')]) = database_error_text"
  by code_simp

lemma engine_raises_try:
  "engine_raises db sqlQuery params \<Longrightarrow> isl (sqliteTool_try db sqlQuery params)"
  unfolding engine_raises_def sqliteTool_try_def
  by (cases "getDatabase db"; cases "prepare db sqlQuery"; auto split: sum.splits prod.splits if_splits)

text \<open>
  C10. When opening the database, preparing the statement or executing it throws, the
  tool returns the text of \<open>{success: false, error: "Database error"}\<close> with \<open>isError\<close>
  set: a constant, in which nothing of the engine's error or of the query appears.
\<close>

theorem sqliteTool_engine_error:
  "engine_raises db sqlQuery params \<Longrightarrow>
   sqliteTool db sqlQuery params = \<lparr>content_text = database_error_text, isError = True\<rparr>"
  using engine_raises_try[of db sqlQuery params]
  by (cases "sqliteTool_try db sqlQuery params") (simp_all add: sqliteTool_def payload_database_error)

theorem sqliteTool_engine_error_witness:
  "engine_raises ex_database ''SELECT * FROM users'' [] \<and>
   sqliteTool ex_database ''SELECT * FROM users'' [] =
     \<lparr>content_text = database_error_text, isError = True\<rparr>"
proof -
  have h: "engine_raises ex_database ''SELECT * FROM users'' []"
    by (simp add: engine_raises_def ex_database_def)
  from sqliteTool_engine_error[OF h] h show ?thesis by simp
qed

end
